theory Spec2Isabelle
  imports Complex_Main "HOL-Library.Word"
begin

unbundle bit_operations_syntax

section \<open>Numbers, arrays and errors\<close>

text \<open>
  A JavaScript number is modelled as a \<open>real option\<close>: \<open>Some x\<close> is the finite number
  \<open>x\<close>, and \<open>None\<close> is what an arithmetic operand is when it is \<open>NaN\<close> or
  \<open>undefined\<close> (an out-of-range array read gives \<open>undefined\<close>, which every arithmetic
  operator converts to \<open>NaN\<close>). Rounding and overflow of IEEE doubles are not modelled:
  arithmetic on finite numbers is the arithmetic of the reals, and no operation of the
  program divides by zero except where the model says so. A thrown \<open>TypeError\<close>
  (a property read on \<open>undefined\<close> or \<open>null\<close>) is the error value of a sum type.
\<close>

type_synonym num = "real option"
type_synonym matrix = "num list list"

datatype error = TypeError

definition num_at :: "num list \<Rightarrow> nat \<Rightarrow> num" where
  "num_at row j = (if j < length row then row ! j else None)"

definition jadd :: "num \<Rightarrow> num \<Rightarrow> num" where
  "jadd x y = (case x of None \<Rightarrow> None | Some a \<Rightarrow> (case y of None \<Rightarrow> None | Some b \<Rightarrow> Some (a + b)))"

definition jsub :: "num \<Rightarrow> num \<Rightarrow> num" where
  "jsub x y = (case x of None \<Rightarrow> None | Some a \<Rightarrow> (case y of None \<Rightarrow> None | Some b \<Rightarrow> Some (a - b)))"

definition jmul :: "num \<Rightarrow> num \<Rightarrow> num" where
  "jmul x y = (case x of None \<Rightarrow> None | Some a \<Rightarrow> (case y of None \<Rightarrow> None | Some b \<Rightarrow> Some (a * b)))"

text \<open>Division by a count: the divisors of the program are array lengths. A zero
  divisor gives a non-finite value in JavaScript, for which the model has \<open>None\<close>.\<close>

definition jdiv :: "num \<Rightarrow> nat \<Rightarrow> num" where
  "jdiv x n = (case x of None \<Rightarrow> None | Some a \<Rightarrow> if n = 0 then None else Some (a / real n))"

section \<open>Matrix operations\<close>

definition zeros :: "nat \<Rightarrow> nat \<Rightarrow> matrix" where
  "zeros r c = replicate r (replicate c (Some 0))"

text \<open>Every matrix function of the source allocates \<open>zeros(r, c)\<close> and assigns each
  entry \<open>m[i][j]\<close> once, in row-major order, from its arguments only.\<close>

definition fill :: "nat \<Rightarrow> nat \<Rightarrow> (nat \<Rightarrow> nat \<Rightarrow> num) \<Rightarrow> matrix" where
  "fill r c f = map (\<lambda>i. map (\<lambda>j. f i j) [0..<c]) [0..<r]"

definition dot :: "matrix \<Rightarrow> matrix \<Rightarrow> error + matrix" where
  "dot a b =
     (if b = [] then Inl TypeError
      else
        Inr (fill (length a) (length (hd b))
               (\<lambda>i j. foldl (\<lambda>s k. jadd s (jmul (num_at (a ! i) k) (num_at (b ! k) j)))
                        (Some 0) [0..<length b])))"

definition addBias :: "matrix \<Rightarrow> matrix option \<Rightarrow> error + matrix" where
  "addBias a b =
     (if a = [] then Inl TypeError
      else
        let r = length a; c = length (hd a) in
        if c = 0 then Inr (zeros r c)
        else
          (case b of
             None \<Rightarrow> Inl TypeError
           | Some bm \<Rightarrow>
               if bm = [] then Inl TypeError
               else Inr (fill r c (\<lambda>i j. jadd (num_at (a ! i) j) (num_at (hd bm) j)))))"

record act =
  act_f :: "num \<Rightarrow> num"
  act_df :: "num \<Rightarrow> num"

definition relu_act :: act where
  "relu_act =
     \<lparr>act_f = (\<lambda>x. case x of None \<Rightarrow> None | Some a \<Rightarrow> Some (max 0 a)),
      act_df = (\<lambda>y. case y of None \<Rightarrow> Some 0 | Some a \<Rightarrow> if a > 0 then Some 1 else Some 0)\<rparr>"

definition sigmoid_act :: act where
  "sigmoid_act =
     \<lparr>act_f = (\<lambda>x. case x of None \<Rightarrow> None | Some a \<Rightarrow> Some (1 / (1 + exp (- a)))),
      act_df = (\<lambda>y. jmul y (jsub (Some 1) y))\<rparr>"

definition tanh_act :: act where
  "tanh_act =
     \<lparr>act_f = (\<lambda>x. case x of None \<Rightarrow> None | Some a \<Rightarrow> Some (tanh a)),
      act_df = (\<lambda>y. jsub (Some 1) (jmul y y))\<rparr>"

definition linear_act :: act where
  "linear_act = \<lparr>act_f = (\<lambda>x. x), act_df = (\<lambda>_. Some 1)\<rparr>"

text \<open>\<open>Activations[name]\<close>: \<open>None\<close> is \<open>undefined\<close>, for a name that is not in the table.\<close>

definition Activations :: "string \<Rightarrow> act option" where
  "Activations name =
     (if name = ''relu'' then Some relu_act
      else if name = ''sigmoid'' then Some sigmoid_act
      else if name = ''tanh'' then Some tanh_act
      else if name = ''linear'' then Some linear_act
      else None)"

definition applyActivation :: "matrix \<Rightarrow> act option \<Rightarrow> error + matrix" where
  "applyActivation a actv =
     (if a = [] then Inl TypeError
      else
        let r = length a; c = length (hd a) in
        if c = 0 then Inr (zeros r c)
        else
          (case actv of
             None \<Rightarrow> Inl TypeError
           | Some ac \<Rightarrow> Inr (fill r c (\<lambda>i j. act_f ac (num_at (a ! i) j)))))"

definition hadamard :: "matrix \<Rightarrow> matrix \<Rightarrow> error + matrix" where
  "hadamard a b =
     (if a = [] then Inl TypeError
      else
        let r = length a; c = length (hd a) in
        if c > 0 \<and> length b < r then Inl TypeError
        else Inr (fill r c (\<lambda>i j. jmul (num_at (a ! i) j) (num_at (b ! i) j))))"

definition transpose_m :: "matrix \<Rightarrow> error + matrix" where
  "transpose_m a =
     (if a = [] then Inl TypeError
      else
        let r = length a; c = length (hd a) in
        Inr (fill c r (\<lambda>j i. num_at (a ! i) j)))"

definition mse :: "matrix \<Rightarrow> matrix \<Rightarrow> error + (num \<times> matrix)" where
  "mse pred target =
     (if pred = [] then Inl TypeError
      else
        let r = length pred; c = length (hd pred) in
        if c > 0 \<and> length target < r then Inl TypeError
        else
          let e = (\<lambda>i j. jsub (num_at (pred ! i) j) (num_at (target ! i) j));
              sum = foldl (\<lambda>s i. foldl (\<lambda>s j. jadd s (jmul (e i j) (e i j))) s [0..<c])
                      (Some 0) [0..<r];
              grad = fill r c (\<lambda>i j. jdiv (jmul (Some 2) (e i j)) c)
          in Inr (jdiv sum r, grad))"

section \<open>Dense layer and network\<close>

text \<open>
  The fields of a \<open>DenseLayer\<close> object. \<open>W\<close> and \<open>b\<close> are \<open>None\<close> when the field holds
  \<open>null\<close> or \<open>undefined\<close> (a layer without bias has \<open>b = null\<close>; an import can store an
  absent matrix); the caches \<open>X\<close>, \<open>Z\<close>, \<open>A\<close> are \<open>None\<close> until the first forward call.
\<close>

record DenseLayer =
  l_in :: nat
  l_out :: nat
  l_activation :: string
  l_useBias :: bool
  l_W :: "matrix option"
  l_b :: "matrix option"
  l_X :: "matrix option"
  l_Z :: "matrix option"
  l_A :: "matrix option"

text \<open>
  \<open>forward\<close> and \<open>backward\<close> return the updated layer with their result. When the
  source throws, the model returns the error alone: the fields already assigned before
  the throw are not reported.
\<close>

definition forward :: "DenseLayer \<Rightarrow> matrix \<Rightarrow> error + (DenseLayer \<times> matrix)" where
  "forward L X =
     (case l_W L of
        None \<Rightarrow> Inl TypeError
      | Some w \<Rightarrow>
     (case dot X w of
        Inl e \<Rightarrow> Inl e
      | Inr XW \<Rightarrow>
     (case addBias XW (if l_useBias L then l_b L else Some (zeros 1 (l_out L))) of
        Inl e \<Rightarrow> Inl e
      | Inr Zlin \<Rightarrow>
     (case applyActivation Zlin (Activations (l_activation L)) of
        Inl e \<Rightarrow> Inl e
      | Inr Aout \<Rightarrow>
          Inr (L\<lparr>l_X := Some X, l_Z := Some Zlin, l_A := Some Aout\<rparr>, Aout)))))"

text \<open>The in-place updates of \<open>backward\<close>: row \<open>i\<close> of \<open>W\<close> is assigned at the columns
  below \<open>W[0].length\<close> (a shorter row is extended, a longer one keeps its tail), and
  row \<open>0\<close> of \<open>b\<close> at all of its columns.\<close>

definition update_row :: "real \<Rightarrow> nat \<Rightarrow> nat \<Rightarrow> num list \<Rightarrow> num list \<Rightarrow> num list" where
  "update_row lr r n row g =
     map (\<lambda>j. jsub (num_at row j) (jdiv (jmul (Some lr) (num_at g j)) r)) [0..<n] @ drop n row"

definition backward :: "DenseLayer \<Rightarrow> matrix \<Rightarrow> real \<Rightarrow> error + (DenseLayer \<times> matrix)" where
  "backward L dA lr =
     (case l_A L of
        None \<Rightarrow> Inl TypeError
      | Some A \<Rightarrow>
     if A = [] then Inl TypeError
     else
     let r = length A; c = length (hd A) in
     (case Activations (l_activation L) of
        None \<Rightarrow> Inl TypeError
      | Some ac \<Rightarrow>
     (case hadamard dA (map (map (act_df ac)) A) of
        Inl e \<Rightarrow> Inl e
      | Inr dZ \<Rightarrow>
     (case l_X L of
        None \<Rightarrow> Inl TypeError
      | Some X \<Rightarrow>
     (case transpose_m X of
        Inl e \<Rightarrow> Inl e
      | Inr Xt \<Rightarrow>
     (case dot Xt dZ of
        Inl e \<Rightarrow> Inl e
      | Inr dW \<Rightarrow>
     let dB = map (\<lambda>j. foldl (\<lambda>s row. jadd s (num_at row j)) (Some 0) dZ) [0..<c] in
     (case l_W L of
        None \<Rightarrow> Inl TypeError
      | Some w \<Rightarrow>
     (case transpose_m w of
        Inl e \<Rightarrow> Inl e
      | Inr Wt \<Rightarrow>
     (case dot dZ Wt of
        Inl e \<Rightarrow> Inl e
      | Inr dX \<Rightarrow>
     if length (hd w) > 0 \<and> length dW < length w then Inl TypeError
     else
     let w' = map (\<lambda>i. update_row lr r (length (hd w)) (w ! i) (dW ! i)) [0..<length w] in
     if l_useBias L then
       (case l_b L of
          None \<Rightarrow> Inl TypeError
        | Some bm \<Rightarrow>
            if bm = [] then Inl TypeError
            else
              Inr (L\<lparr>l_W := Some w',
                     l_b := Some (update_row lr r (length (hd bm)) (hd bm) dB # tl bm)\<rparr>, dX))
     else Inr (L\<lparr>l_W := Some w'\<rparr>, dX))))))))))"

text \<open>\<open>Network.forward\<close> and \<open>Network.backward\<close>; a network is its array of layers.\<close>

fun net_forward :: "DenseLayer list \<Rightarrow> matrix \<Rightarrow> error + (DenseLayer list \<times> matrix)" where
  "net_forward [] A = Inr ([], A)"
| "net_forward (L # Ls) A =
     (case forward L A of
        Inl e \<Rightarrow> Inl e
      | Inr (L', A') \<Rightarrow>
          (case net_forward Ls A' of
             Inl e \<Rightarrow> Inl e
           | Inr (Ls', Y) \<Rightarrow> Inr (L' # Ls', Y)))"

text \<open>The loop of \<open>Network.backward\<close> runs from the last layer to the first; the helper
  takes the layers in that order and returns them in that order.\<close>

fun backward_layers :: "DenseLayer list \<Rightarrow> matrix \<Rightarrow> real \<Rightarrow> error + DenseLayer list" where
  "backward_layers [] dA lr = Inr []"
| "backward_layers (L # Ls) dA lr =
     (case backward L dA lr of
        Inl e \<Rightarrow> Inl e
      | Inr (L', dX) \<Rightarrow>
          (case backward_layers Ls dX lr of
             Inl e \<Rightarrow> Inl e
           | Inr Ls' \<Rightarrow> Inr (L' # Ls')))"

definition net_backward :: "DenseLayer list \<Rightarrow> matrix \<Rightarrow> real \<Rightarrow> error + DenseLayer list" where
  "net_backward Ls dA lr =
     (case backward_layers (rev Ls) dA lr of Inl e \<Rightarrow> Inl e | Inr Ls' \<Rightarrow> Inr (rev Ls'))"

section \<open>Real matrices of the specification\<close>

text \<open>
  The specification speaks of matrices of numbers with a shape. \<open>mat\<close> embeds a matrix of
  reals into the program's arrays; \<open>shape m r c\<close> says that \<open>m\<close> has \<open>r\<close> rows of \<open>c\<close>
  entries each. The operations below are the specification's: Hadamard product,
  transpose, matrix product, column sums and the derivative of each activation
  expressed in the activation's own output.
\<close>

definition mat :: "real list list \<Rightarrow> matrix" where
  "mat m = map (map Some) m"

definition shape :: "'a list list \<Rightarrow> nat \<Rightarrow> nat \<Rightarrow> bool" where
  "shape m r c = (length m = r \<and> (\<forall>row \<in> set m. length row = c))"

definition rmat :: "nat \<Rightarrow> nat \<Rightarrow> (nat \<Rightarrow> nat \<Rightarrow> real) \<Rightarrow> real list list" where
  "rmat r c g = map (\<lambda>i. map (\<lambda>j. g i j) [0..<c]) [0..<r]"

definition r_hadamard :: "nat \<Rightarrow> nat \<Rightarrow> real list list \<Rightarrow> real list list \<Rightarrow> real list list" where
  "r_hadamard r c P Q = rmat r c (\<lambda>i j. P ! i ! j * Q ! i ! j)"

definition r_transpose :: "nat \<Rightarrow> nat \<Rightarrow> real list list \<Rightarrow> real list list" where
  "r_transpose r c P = rmat c r (\<lambda>j i. P ! i ! j)"

definition r_product :: "nat \<Rightarrow> nat \<Rightarrow> nat \<Rightarrow> real list list \<Rightarrow> real list list \<Rightarrow> real list list" where
  "r_product r n c P Q = rmat r c (\<lambda>i j. \<Sum>k<n. P ! i ! k * Q ! k ! j)"

definition r_colsum :: "nat \<Rightarrow> nat \<Rightarrow> real list list \<Rightarrow> real list" where
  "r_colsum r c P = map (\<lambda>j. \<Sum>i<r. P ! i ! j) [0..<c]"

definition df_real :: "string \<Rightarrow> real \<Rightarrow> real" where
  "df_real name y =
     (if name = ''relu'' then (if y > 0 then 1 else 0)
      else if name = ''sigmoid'' then y * (1 - y)
      else if name = ''tanh'' then 1 - y * y
      else 1)"

definition gradPreActivation :: "string \<Rightarrow> nat \<Rightarrow> nat \<Rightarrow> real list list \<Rightarrow> real list list \<Rightarrow> real list list" where
  "gradPreActivation name r c dA A = r_hadamard r c dA (map (map (df_real name)) A)"

text \<open>A layer as the data model describes it, and a chain of layers whose widths agree,
  starting from the declared input size \<open>n\<close>.\<close>

definition valid_layer :: "DenseLayer \<Rightarrow> bool" where
  "valid_layer L =
     (1 \<le> l_in L \<and>
      (case l_W L of None \<Rightarrow> False | Some w \<Rightarrow> shape w (l_in L) (l_out L)) \<and>
      (l_useBias L \<longrightarrow> (case l_b L of None \<Rightarrow> False | Some bm \<Rightarrow> shape bm 1 (l_out L))) \<and>
      l_activation L \<in> {''relu'', ''sigmoid'', ''tanh'', ''linear''})"

fun chain_ok :: "nat \<Rightarrow> DenseLayer list \<Rightarrow> bool" where
  "chain_ok n [] = True"
| "chain_ok n (L # Ls) = (l_in L = n \<and> valid_layer L \<and> chain_ok (l_out L) Ls)"

definition final_width :: "nat \<Rightarrow> DenseLayer list \<Rightarrow> nat" where
  "final_width n Ls = (if Ls = [] then n else l_out (last Ls))"

text \<open>Example layers for the concrete instances below.\<close>

definition example_layer :: DenseLayer where
  "example_layer =
     \<lparr>l_in = 1, l_out = 1, l_activation = ''linear'', l_useBias = True,
      l_W = Some (mat [[2]]), l_b = Some (mat [[1]]),
      l_X = Some (mat [[3], [5]]), l_Z = None, l_A = Some (mat [[7], [11]])\<rparr>"

section \<open>Pseudo-random generator and weight initializer\<close>

text \<open>
  \<open>rng(seed)\<close> returns a closure over one 32-bit state \<open>s\<close>. The three shift-xor
  assignments work on the 32-bit pattern of \<open>s\<close> (\<open>>>>\<close> is the logical shift) and
  \<open>s >>>= 0\<close> reads the pattern as unsigned. A random source is modelled by its state
  and the function of one call: the value returned and the next state.
\<close>

type_synonym 's source = "'s \<Rightarrow> real \<times> 's"

definition rng :: "int \<Rightarrow> 32 word" where
  "rng seed = word_of_int seed"

definition rng_step :: "32 word \<Rightarrow> 32 word" where
  "rng_step s =
     (let s1 = s XOR push_bit 13 s;
          s2 = s1 XOR drop_bit 17 s1;
          s3 = s2 XOR push_bit 5 s2
      in s3)"

definition rng_rand :: "32 word source" where
  "rng_rand s = (let s' = rng_step s in (real (unat s' mod 1000000) / 1000000, s'))"

text \<open>\<open>let u = 0; while (u === 0) u = rand();\<close> The loop may run forever: the model
  is a partial function, \<open>None\<close> when it does not return.\<close>

partial_function (option) draw :: "'s source \<Rightarrow> 's \<Rightarrow> (real \<times> 's) option" where
  "draw rand s = (case rand s of (u, s') \<Rightarrow> if u = 0 then draw rand s' else Some (u, s'))"

text \<open>\<open>Math.log\<close> is \<open>-Infinity\<close> at \<open>0\<close> and \<open>NaN\<close> below, \<open>Math.sqrt\<close> is \<open>NaN\<close> below
  \<open>0\<close>: not finite numbers, \<open>None\<close> in the model. In the product that follows a
  non-finite factor gives a non-finite entry.\<close>

definition Math_log :: "real \<Rightarrow> num" where
  "Math_log x = (if x > 0 then Some (ln x) else None)"

definition Math_sqrt :: "num \<Rightarrow> num" where
  "Math_sqrt x = (case x of None \<Rightarrow> None | Some a \<Rightarrow> if a \<ge> 0 then Some (sqrt a) else None)"

definition randn_entry :: "'s source \<Rightarrow> 's \<Rightarrow> (num \<times> 's) option" where
  "randn_entry rand s =
     (case draw rand s of
        None \<Rightarrow> None
      | Some (u, s1) \<Rightarrow>
          (case draw rand s1 of
             None \<Rightarrow> None
           | Some (v, s2) \<Rightarrow>
               let z = jmul (Math_sqrt (jmul (Some (- 2)) (Math_log u))) (Some (cos (2 * pi * v)))
               in Some (jmul z (Some 0.1), s2)))"

fun randn_row :: "nat \<Rightarrow> 's source \<Rightarrow> 's \<Rightarrow> (num list \<times> 's) option" where
  "randn_row 0 rand s = Some ([], s)"
| "randn_row (Suc c) rand s =
     (case randn_entry rand s of
        None \<Rightarrow> None
      | Some (z, s1) \<Rightarrow>
          (case randn_row c rand s1 of
             None \<Rightarrow> None
           | Some (zs, s2) \<Rightarrow> Some (z # zs, s2)))"

fun randn :: "nat \<Rightarrow> nat \<Rightarrow> 's source \<Rightarrow> 's \<Rightarrow> (matrix \<times> 's) option" where
  "randn 0 c rand s = Some ([], s)"
| "randn (Suc r) c rand s =
     (case randn_row c rand s of
        None \<Rightarrow> None
      | Some (row, s1) \<Rightarrow>
          (case randn r c rand s1 of
             None \<Rightarrow> None
           | Some (rows, s2) \<Rightarrow> Some (row # rows, s2)))"

text \<open>The state of a source after \<open>k\<close> calls and the value of call number \<open>k\<close>
  (counted from \<open>0\<close>).\<close>

definition after :: "'s source \<Rightarrow> nat \<Rightarrow> 's \<Rightarrow> 's" where
  "after rand k s = ((\<lambda>t. snd (rand t)) ^^ k) s"

definition nth_value :: "'s source \<Rightarrow> 's \<Rightarrow> nat \<Rightarrow> real" where
  "nth_value rand s k = fst (rand (after rand k s))"

definition uniform_source :: "'s source \<Rightarrow> 's \<Rightarrow> bool" where
  "uniform_source rand s = (\<forall>k. 0 \<le> nth_value rand s k \<and> nth_value rand s k < 1)"

definition nonzero_again :: "'s source \<Rightarrow> 's \<Rightarrow> bool" where
  "nonzero_again rand s = (\<forall>k. \<exists>j\<ge>k. nth_value rand s j \<noteq> 0)"

definition box_muller :: "real \<Rightarrow> real \<Rightarrow> real" where
  "box_muller u v = sqrt (- 2 * ln u) * cos (2 * pi * v)"

text \<open>An entry is a finite number, the Box-Muller value of two values returned by the
  source, both nonzero, scaled by \<open>0.1\<close>.\<close>

definition from_draws :: "'s source \<Rightarrow> 's \<Rightarrow> num \<Rightarrow> bool" where
  "from_draws rand s z =
     (\<exists>i j. i < j \<and> 0 < nth_value rand s i \<and> nth_value rand s i < 1 \<and>
            0 < nth_value rand s j \<and> nth_value rand s j < 1 \<and>
            z = Some (box_muller (nth_value rand s i) (nth_value rand s j) * 0.1))"

text \<open>A source for the concrete instances: it alternates \<open>0\<close> and \<open>1/2\<close>.\<close>

definition alternating :: "nat source" where
  "alternating k = (if even k then 0 else 1 / 2, Suc k)"

section \<open>Application state and network building\<close>

text \<open>
  An entry of the architecture list \<open>arch\<close>. The \<open>id\<close> of an entry (a random UUID used
  by the editor) is left out. \<open>activation\<close> and \<open>bias\<close> are \<open>None\<close> when the property is
  absent or \<open>null\<close>.
\<close>

record arch_item =
  a_type :: string
  a_neurons :: nat
  a_activation :: "string option"
  a_bias :: "bool option"

text \<open>The global variables \<open>net\<close> (its array of layers), \<open>arch\<close>, \<open>inputSize\<close>,
  \<open>outputSize\<close>, \<open>dataset\<close> and \<open>stopFlag\<close>. The document, the chart and the node
  colours are presentation and are not modelled.\<close>

record state =
  net :: "DenseLayer list"
  arch :: "arch_item list"
  inputSize :: nat
  outputSize :: nat
  dataset_X :: matrix
  dataset_y :: matrix
  stopFlag :: bool

text \<open>The constructor of \<open>DenseLayer\<close>, with the state of the random source it consumes.\<close>

definition new_DenseLayer ::
  "nat \<Rightarrow> nat \<Rightarrow> string \<Rightarrow> bool \<Rightarrow> 's source \<Rightarrow> 's \<Rightarrow> (DenseLayer \<times> 's) option" where
  "new_DenseLayer inSize outSize activation useBias rand s =
     (case randn inSize outSize rand s of
        None \<Rightarrow> None
      | Some (w, s') \<Rightarrow>
          Some (\<lparr>l_in = inSize, l_out = outSize, l_activation = activation, l_useBias = useBias,
                 l_W = Some w, l_b = (if useBias then Some (zeros 1 outSize) else None),
                 l_X = None, l_Z = None, l_A = None\<rparr>, s'))"

text \<open>The loop of \<open>buildNetwork\<close> over \<open>arch\<close>: it carries \<open>lastSize\<close> and returns the
  layers with the final \<open>lastSize\<close>. \<open>L.activation || "relu"\<close> takes \<open>"relu"\<close> for an
  absent or empty name, \<open>L.bias !== false\<close> is true unless the flag is \<open>false\<close>. Every
  layer gets its own generator \<open>rng(42)\<close>.\<close>

fun build_layers :: "nat \<Rightarrow> arch_item list \<Rightarrow> (DenseLayer list \<times> nat) option" where
  "build_layers lastSize [] = Some ([], lastSize)"
| "build_layers lastSize (L # rest) =
     (if a_type L = ''input'' then build_layers (a_neurons L) rest
      else
        let actv = (case a_activation L of None \<Rightarrow> ''relu'' | Some a \<Rightarrow> if a = [] then ''relu'' else a);
            useBias = (a_bias L \<noteq> Some False)
        in (case new_DenseLayer lastSize (a_neurons L) actv useBias rng_rand (rng 42) of
              None \<Rightarrow> None
            | Some (d, _) \<Rightarrow>
                (case build_layers (a_neurons L) rest of
                   None \<Rightarrow> None
                 | Some (ds, n) \<Rightarrow> Some (d # ds, n))))"

definition buildNetwork :: "state \<Rightarrow> state option" where
  "buildNetwork st =
     (case build_layers (inputSize st) (arch st) of
        None \<Rightarrow> None
      | Some (ds, lastSize) \<Rightarrow> Some (st\<lparr>net := ds, outputSize := lastSize\<rparr>))"

text \<open>States for the concrete instances below.\<close>

definition example_state :: state where
  "example_state =
     \<lparr>net = [],
      arch = [\<lparr>a_type = ''input'', a_neurons = 2, a_activation = None, a_bias = None\<rparr>,
              \<lparr>a_type = ''hidden'', a_neurons = 2, a_activation = Some ''tanh'', a_bias = Some True\<rparr>,
              \<lparr>a_type = ''output'', a_neurons = 2, a_activation = Some ''sigmoid'', a_bias = Some True\<rparr>],
      inputSize = 2, outputSize = 1, dataset_X = [], dataset_y = [], stopFlag = False\<rparr>"

section \<open>CSV datasets\<close>

text \<open>
  The text of the file is a \<open>string\<close>: its characters are the code units below 256.
  \<open>trim\<close> removes white space and line terminators at both ends; among these code
  units they are 9 to 13, 32 and 160. The header test is the regular expression
  \<open>/[a-zA-Z]/\<close>.
\<close>

definition is_space :: "char \<Rightarrow> bool" where
  "is_space c = (let n = (of_char c :: nat) in (9 \<le> n \<and> n \<le> 13) \<or> n = 32 \<or> n = 160)"

definition is_alpha :: "char \<Rightarrow> bool" where
  "is_alpha c = (let n = (of_char c :: nat) in (97 \<le> n \<and> n \<le> 122) \<or> (65 \<le> n \<and> n \<le> 90))"

definition trim :: "string \<Rightarrow> string" where
  "trim s = rev (dropWhile is_space (rev (dropWhile is_space s)))"

text \<open>\<open>split(/\r?\n/)\<close>: a line feed, or a carriage return directly followed by one,
  ends the current piece; \<open>cur\<close> is the current piece, reversed.\<close>

fun split_lines :: "string \<Rightarrow> string \<Rightarrow> string list" where
  "split_lines cur [] = [rev cur]"
| "split_lines cur [c] = (if c = CHR 0x0A then [rev cur, []] else [rev (c # cur)])"
| "split_lines cur (c # d # cs) =
     (if c = CHR 0x0A then rev cur # split_lines [] (d # cs)
      else if c = CHR 0x0D \<and> d = CHR 0x0A then rev cur # split_lines [] cs
      else split_lines (c # cur) (d # cs))"

text \<open>\<open>split(",")\<close>, for any separator character.\<close>

fun split_on :: "char \<Rightarrow> string \<Rightarrow> string \<Rightarrow> string list" where
  "split_on sep cur [] = [rev cur]"
| "split_on sep cur (c # cs) =
     (if c = sep then rev cur # split_on sep [] cs else split_on sep (c # cur) cs)"

definition csv_lines :: "string \<Rightarrow> string list" where
  "csv_lines text = filter (\<lambda>l. l \<noteq> []) (map trim (split_lines [] text))"

text \<open>The rows of numbers. \<open>lines[0]\<close> of an empty array is \<open>undefined\<close>, which the test
  reads as the text \<open>undefined\<close>: it has letters, and \<open>shift\<close> leaves the empty array
  empty. \<open>Number\<close>, the conversion of a cell to a number, is a parameter.\<close>

definition csv_data :: "(string \<Rightarrow> num) \<Rightarrow> string \<Rightarrow> matrix" where
  "csv_data Number text =
     (let lines = csv_lines text;
          lines' = (case lines of [] \<Rightarrow> [] | l # ls \<Rightarrow> if list_ex is_alpha l then ls else lines)
      in map (\<lambda>l. map Number (split_on CHR '','' [] l)) lines')"

fun update_first :: "('a \<Rightarrow> bool) \<Rightarrow> ('a \<Rightarrow> 'a) \<Rightarrow> 'a list \<Rightarrow> 'a list" where
  "update_first p f [] = []"
| "update_first p f (x # xs) = (if p x then f x # xs else x # update_first p f xs)"

definition ensureIOInArch :: "state \<Rightarrow> state option" where
  "ensureIOInArch st =
     (let is_in = (\<lambda>l. a_type l = ''input'');
          is_out = (\<lambda>l. a_type l = ''output'');
          arch1 =
            (if list_ex is_in (arch st)
             then update_first is_in (\<lambda>l. l\<lparr>a_neurons := inputSize st\<rparr>) (arch st)
             else \<lparr>a_type = ''input'', a_neurons = inputSize st,
                    a_activation = None, a_bias = None\<rparr> # arch st);
          arch2 =
            (if list_ex is_out arch1
             then update_first is_out
                    (\<lambda>l. l\<lparr>a_neurons := outputSize st,
                            a_activation :=
                              (if a_activation l = None \<or> a_activation l = Some []
                               then Some ''sigmoid'' else a_activation l)\<rparr>) arch1
             else arch1 @ [\<lparr>a_type = ''output'', a_neurons = outputSize st,
                             a_activation = Some ''sigmoid'', a_bias = Some True\<rparr>])
      in buildNetwork (st\<lparr>arch := arch2\<rparr>))"

text \<open>The \<open>onload\<close> callback of \<open>handleCSVFile\<close> on the text of the file. With no row,
  \<open>data[0].length\<close> throws before any assignment; nothing catches it.\<close>

definition handleCSVFile :: "(string \<Rightarrow> num) \<Rightarrow> string \<Rightarrow> state \<Rightarrow> (error + state) option" where
  "handleCSVFile Number text st =
     (let data = csv_data Number text in
      if data = [] then Some (Inl TypeError)
      else
        let cols = length (hd data);
            st1 = st\<lparr>inputSize := cols - 1, outputSize := 1,
                      dataset_X := map (take (cols - 1)) data,
                      dataset_y := map (\<lambda>r. [num_at r (cols - 1)]) data\<rparr>
        in map_option Inr (ensureIOInArch st1))"

text \<open>A conversion for the concrete instances: the cells \<open>0\<close> and \<open>1\<close>.\<close>

definition bit_Number :: "string \<Rightarrow> num" where
  "bit_Number s = (if s = ''0'' then Some 0 else if s = ''1'' then Some 1 else None)"


definition ragged_text :: string where
  "ragged_text = ''1,0,1,1'' @ [CHR 0x0A] @ ''0,1''"


text \<open>
  The architecture list that \<open>ensureIOInArch\<close> leaves in \<open>arch\<close> for the declared sizes
  \<open>inS\<close> and \<open>outS\<close>: the first entry of type \<open>input\<close> takes \<open>inS\<close> neurons, and a new one
  is put in front when there is none; the first entry of type \<open>output\<close> takes \<open>outS\<close>
  neurons and the activation \<open>sigmoid\<close> when it has none, and a new one is appended when
  there is none.
\<close>

definition arch_with_io :: "nat \<Rightarrow> nat \<Rightarrow> arch_item list \<Rightarrow> arch_item list" where
  "arch_with_io inS outS items =
     (let is_in = (\<lambda>l. a_type l = ''input'');
          is_out = (\<lambda>l. a_type l = ''output'');
          arch1 =
            (if list_ex is_in items
             then update_first is_in (\<lambda>l. l\<lparr>a_neurons := inS\<rparr>) items
             else \<lparr>a_type = ''input'', a_neurons = inS,
                    a_activation = None, a_bias = None\<rparr> # items)
      in if list_ex is_out arch1
         then update_first is_out
                (\<lambda>l. l\<lparr>a_neurons := outS,
                        a_activation :=
                          (if a_activation l = None \<or> a_activation l = Some []
                           then Some ''sigmoid'' else a_activation l)\<rparr>) arch1
         else arch1 @ [\<lparr>a_type = ''output'', a_neurons = outS,
                         a_activation = Some ''sigmoid'', a_bias = Some True\<rparr>])"

section \<open>Importing JSON\<close>

text \<open>
  The payloads of the import are modelled on the typed part of JSON that the handler
  reads. A layer record has a numeric \<open>out\<close>; its other properties may be absent
  (\<open>None\<close>). A property that should hold an array is \<open>Absent\<close> (missing, or a value that
  counts as false), \<open>NotArray\<close> (another value that is not an array) or an array. The text
  of the file is \<open>Unparsable\<close> when \<open>JSON.parse\<close> throws.
\<close>

record layer_rec =
  r_in :: "nat option"
  r_out :: nat
  r_activation :: "string option"
  r_useBias :: "bool option"
  r_W :: "matrix option"
  r_b :: "matrix option"

datatype 'a field = Absent | NotArray | Array "'a list"

record payload =
  p_layers :: "layer_rec field"
  p_architecture :: "arch_item field"
  p_weights :: "layer_rec field"

datatype json_input = Unparsable | Parsed payload

text \<open>What the handler reports with \<open>alert\<close>: one of the two success messages (the
  second says whether \<open>weights\<close> was there), or the message of the error that its \<open>catch\<close>
  block caught: that of \<open>JSON.parse\<close>, one of the three the handler throws itself, a
  \<open>RangeError\<close> of an array allocation or a \<open>TypeError\<close> of the drawing of the
  network.\<close>

datatype failure =
  ParseError | LayersEmpty | MissingArchitecture | Unrecognized | RangeErrorCaught | TypeErrorCaught

datatype report = ImportedWeights | ImportedArchitecture bool | Invalid failure

text \<open>
  The widths of an import come from the file. \<open>zeros(r, c)\<close> is
  \<open>Array.from({length: r}, () => Array(c).fill(0))\<close>: it throws a \<open>RangeError\<close> when \<open>r\<close>
  is no array length (\<open>2\<^sup>3\<^sup>2\<close> or more), and when a row is made and \<open>c\<close> is none. The
  constructor of \<open>DenseLayer\<close> allocates \<open>zeros(in, out)\<close> in \<open>randn\<close> and, with bias,
  \<open>zeros(1, out)\<close>.
\<close>

definition zeros_fails :: "nat \<Rightarrow> nat \<Rightarrow> bool" where
  "zeros_fails r c = (2 ^ 32 \<le> r \<or> (0 < r \<and> 2 ^ 32 \<le> c))"

definition constructor_fails :: "nat \<Rightarrow> nat \<Rightarrow> bool \<Rightarrow> bool" where
  "constructor_fails inSize outSize useBias =
     (zeros_fails inSize outSize \<or> (useBias \<and> zeros_fails 1 outSize))"

text \<open>\<open>o.layers.map\<close> of the weights format, with the variable \<open>last\<close>. Each record
  gets a layer from the constructor, called with \<open>Math.random\<close> (the source \<open>rand\<close> in
  state \<open>s\<close>), whose \<open>W\<close> and \<open>b\<close> are then overwritten by those of the record. An
  absent \<open>activation\<close> or \<open>useBias\<close> takes the constructor's default. When a constructor
  throws, \<open>map\<close> returns nothing.\<close>

fun import_layers ::
  "'s source \<Rightarrow> nat \<Rightarrow> layer_rec list \<Rightarrow> 's \<Rightarrow> (failure + DenseLayer list \<times> 's) option" where
  "import_layers rand lastSize [] s = Some (Inr ([], s))"
| "import_layers rand lastSize (L # Ls) s =
     (let actv = (case r_activation L of None \<Rightarrow> ''relu'' | Some a \<Rightarrow> a);
          useBias = (case r_useBias L of None \<Rightarrow> True | Some u \<Rightarrow> u)
      in if constructor_fails lastSize (r_out L) useBias then Some (Inl RangeErrorCaught)
         else
           (case new_DenseLayer lastSize (r_out L) actv useBias rand s of
              None \<Rightarrow> None
            | Some (d, s1) \<Rightarrow>
                (case import_layers rand (r_out L) Ls s1 of
                   None \<Rightarrow> None
                 | Some (Inl e) \<Rightarrow> Some (Inl e)
                 | Some (Inr (ds, s2)) \<Rightarrow>
                     Some (Inr (d\<lparr>l_W := r_W L, l_b := r_b L\<rparr> # ds, s2)))))"

definition import_arch :: "nat \<Rightarrow> nat \<Rightarrow> layer_rec list \<Rightarrow> arch_item list" where
  "import_arch inS outS ls =
     \<lparr>a_type = ''input'', a_neurons = inS, a_activation = None, a_bias = None\<rparr>
     # map (\<lambda>L. \<lparr>a_type = ''hidden'', a_neurons = r_out L,
                   a_activation = r_activation L, a_bias = r_useBias L\<rparr>) (butlast ls)
     @ [\<lparr>a_type = ''output'', a_neurons = outS,
          a_activation =
            Some (case r_activation (last ls) of
                    None \<Rightarrow> ''sigmoid''
                  | Some a \<Rightarrow> if a = [] then ''sigmoid'' else a),
          a_bias = Some (case r_useBias (last ls) of None \<Rightarrow> True | Some u \<Rightarrow> u)\<rparr>]"

text \<open>
  \<open>renderNNVis\<close> runs inside the \<open>try\<close> block and can throw. It returns at once when the
  page has no element \<open>nnVis\<close>; the page is not part of the sources, so this is the
  parameter \<open>nnVis\<close>. Otherwise it places \<open>inputSize\<close> nodes and then \<open>out\<close> nodes for every
  layer in one array \<open>pos\<close>, reads every \<open>L.W\<close>, and for layer number \<open>li\<close> draws an edge
  for every \<open>i\<close> below \<open>W.length\<close> and \<open>j\<close> below \<open>W[0].length\<close>, from the node number \<open>i\<close>
  counted from the first node of column \<open>li\<close> to the node number \<open>j\<close> counted from the first
  node of column \<open>li + 1\<close>. It throws a \<open>TypeError\<close> when a \<open>W\<close> is missing and when one
  of these numbers is beyond the last node. \<open>before\<close> is the number of nodes before
  column \<open>li\<close> and \<open>width\<close> the number of nodes of column \<open>li\<close>.
\<close>

fun edges_throw :: "nat \<Rightarrow> nat \<Rightarrow> nat \<Rightarrow> DenseLayer list \<Rightarrow> bool" where
  "edges_throw before width nodes [] = False"
| "edges_throw before width nodes (L # Ls) =
     ((case l_W L of
         None \<Rightarrow> True
       | Some w \<Rightarrow>
           w \<noteq> [] \<and> hd w \<noteq> [] \<and>
           (nodes < before + length w \<or> nodes < before + width + length (hd w)))
      \<or> edges_throw (before + width) (l_out L) nodes Ls)"

definition renderNNVis_throws :: "bool \<Rightarrow> state \<Rightarrow> bool" where
  "renderNNVis_throws nnVis st =
     (nnVis \<and>
      (list_ex (\<lambda>L. l_W L = None) (net st) \<or>
       edges_throw 0 (inputSize st) (inputSize st + sum_list (map l_out (net st))) (net st)))"

text \<open>The loop that assigns the weights of the architecture format: a layer takes
  \<open>W\<close> and \<open>b\<close> of its record when both are there.\<close>

fun apply_weights :: "DenseLayer list \<Rightarrow> layer_rec list \<Rightarrow> DenseLayer list" where
  "apply_weights (L # Ls) (w # ws) =
     (if r_W w \<noteq> None \<and> r_b w \<noteq> None then L\<lparr>l_W := r_W w, l_b := r_b w\<rparr> else L)
     # apply_weights Ls ws"
| "apply_weights Ls ws = Ls"

text \<open>The state of the architecture format before \<open>buildNetwork\<close>.\<close>

definition set_architecture :: "arch_item list \<Rightarrow> state \<Rightarrow> state" where
  "set_architecture items st =
     (let st1 = st\<lparr>arch := items\<rparr>;
          st2 = (case find (\<lambda>l. a_type l = ''input'') items of
                   None \<Rightarrow> st1
                 | Some inL \<Rightarrow> st1\<lparr>inputSize := a_neurons inL\<rparr>)
      in (case find (\<lambda>l. a_type l = ''output'') items of
            None \<Rightarrow> st2
          | Some outL \<Rightarrow> st2\<lparr>outputSize := a_neurons outL\<rparr>))"

text \<open>The loop of \<open>buildNetwork\<close> with the \<open>RangeError\<close> of the constructor, for widths
  that may be no array lengths, such as those read from a file: a constructor that throws
  ends the loop, and \<open>net\<close> keeps the layers added before (\<open>Inl\<close>).\<close>

fun build_layers_checked ::
  "nat \<Rightarrow> arch_item list \<Rightarrow> (DenseLayer list + DenseLayer list \<times> nat) option" where
  "build_layers_checked lastSize [] = Some (Inr ([], lastSize))"
| "build_layers_checked lastSize (L # rest) =
     (if a_type L = ''input'' then build_layers_checked (a_neurons L) rest
      else
        let actv = (case a_activation L of None \<Rightarrow> ''relu'' | Some a \<Rightarrow> if a = [] then ''relu'' else a);
            useBias = (a_bias L \<noteq> Some False)
        in if constructor_fails lastSize (a_neurons L) useBias then Some (Inl [])
           else
             (case new_DenseLayer lastSize (a_neurons L) actv useBias rng_rand (rng 42) of
                None \<Rightarrow> None
              | Some (d, _) \<Rightarrow>
                  (case build_layers_checked (a_neurons L) rest of
                     None \<Rightarrow> None
                   | Some (Inl ds) \<Rightarrow> Some (Inl (d # ds))
                   | Some (Inr (ds, n)) \<Rightarrow> Some (Inr (d # ds, n)))))"

text \<open>
  The \<open>onload\<close> callback of the import. Its \<open>try\<close> block catches every error and reports
  it, and the state is what the assignments before the throw have made it. In the weights
  format the sizes and \<open>arch\<close> are assigned and \<open>net\<close> is a new empty network before the
  layers are made; the drawing follows. In the architecture format \<open>buildNetwork\<close> assigns
  \<open>net\<close>, adds the layers, assigns \<open>outputSize\<close> and draws; the weights are assigned after
  it and the network is drawn again.
\<close>

definition importJSON ::
  "bool \<Rightarrow> 's source \<Rightarrow> 's \<Rightarrow> json_input \<Rightarrow> state \<Rightarrow> (state \<times> report) option" where
  "importJSON nnVis rand s j st =
     (case j of
        Unparsable \<Rightarrow> Some (st, Invalid ParseError)
      | Parsed o' \<Rightarrow>
          (case p_layers o' of
             Array ls \<Rightarrow>
               if ls = [] then Some (st, Invalid LayersEmpty)
               else
                 let inS = (case r_in (hd ls) of None \<Rightarrow> inputSize st | Some n \<Rightarrow> n);
                     outS = r_out (last ls);
                     st1 = st\<lparr>inputSize := inS, outputSize := outS,
                              arch := import_arch inS outS ls, net := []\<rparr>
                 in (case import_layers rand inS ls s of
                       None \<Rightarrow> None
                     | Some (Inl e) \<Rightarrow> Some (st1, Invalid e)
                     | Some (Inr (ds, _)) \<Rightarrow>
                         let st2 = st1\<lparr>net := ds\<rparr>
                         in if renderNNVis_throws nnVis st2
                            then Some (st2, Invalid TypeErrorCaught)
                            else Some (st2, ImportedWeights))
           | _ \<Rightarrow>
               if p_architecture o' \<noteq> Absent \<or> p_weights o' \<noteq> Absent then
                 (case p_architecture o' of
                    Array items \<Rightarrow>
                      let st1 = (set_architecture items st)\<lparr>net := []\<rparr>
                      in (case build_layers_checked (inputSize st1) (arch st1) of
                            None \<Rightarrow> None
                          | Some (Inl ds) \<Rightarrow> Some (st1\<lparr>net := ds\<rparr>, Invalid RangeErrorCaught)
                          | Some (Inr (ds, n)) \<Rightarrow>
                              let st3 = st1\<lparr>net := ds, outputSize := n\<rparr>
                              in if renderNNVis_throws nnVis st3
                                 then Some (st3, Invalid TypeErrorCaught)
                                 else
                                   let st4 =
                                     (case p_weights o' of
                                        Array ws \<Rightarrow>
                                          if length ws = length (net st3)
                                          then st3\<lparr>net := apply_weights (net st3) ws\<rparr>
                                          else st3
                                      | _ \<Rightarrow> st3)
                                   in if renderNNVis_throws nnVis st4
                                      then Some (st4, Invalid TypeErrorCaught)
                                      else Some (st4, ImportedArchitecture (p_weights o' \<noteq> Absent)))
                  | _ \<Rightarrow> Some (st, Invalid MissingArchitecture))
               else Some (st, Invalid Unrecognized)))"

text \<open>
  What the specification of a successful weights import speaks of: the layers stored,
  layer by layer the record's matrices with the previous record's \<open>out\<close> as input width;
  and records whose matrices have the shapes of these widths, all widths being array
  lengths. Neither looks at the \<open>in\<close> of a record.
\<close>

fun stored_layers :: "nat \<Rightarrow> layer_rec list \<Rightarrow> DenseLayer list" where
  "stored_layers lastSize [] = []"
| "stored_layers lastSize (L # Ls) =
     \<lparr>l_in = lastSize, l_out = r_out L,
      l_activation = (case r_activation L of None \<Rightarrow> ''relu'' | Some a \<Rightarrow> a),
      l_useBias = (case r_useBias L of None \<Rightarrow> True | Some u \<Rightarrow> u),
      l_W = r_W L, l_b = r_b L, l_X = None, l_Z = None, l_A = None\<rparr>
     # stored_layers (r_out L) Ls"

fun records_fit :: "nat \<Rightarrow> layer_rec list \<Rightarrow> bool" where
  "records_fit lastSize [] = True"
| "records_fit lastSize (L # Ls) =
     (lastSize < 2 ^ 32 \<and> r_out L < 2 ^ 32 \<and>
      (case r_W L of None \<Rightarrow> False | Some w \<Rightarrow> shape w lastSize (r_out L)) \<and>
      records_fit (r_out L) Ls)"

text \<open>Payloads for the concrete instances: two layer records whose second \<open>in\<close> is not
  the first \<open>out\<close>; an architecture with one layer without bias and the record that the
  application writes for such a layer, with \<open>b\<close> absent.\<close>

definition chain_broken_layers :: "layer_rec list" where
  "chain_broken_layers =
     [\<lparr>r_in = Some 2, r_out = 3, r_activation = Some ''tanh'', r_useBias = Some True,
       r_W = Some (mat [[1, 2, 3], [4, 5, 6]]), r_b = Some (mat [[0, 0, 0]])\<rparr>,
      \<lparr>r_in = Some 5, r_out = 1, r_activation = Some ''sigmoid'', r_useBias = Some True,
       r_W = Some (mat [[1], [2], [3]]), r_b = Some (mat [[0]])\<rparr>]"

definition chain_broken :: payload where
  "chain_broken =
     \<lparr>p_layers = Array chain_broken_layers, p_architecture = Absent, p_weights = Absent\<rparr>"

definition no_bias_arch :: "arch_item list" where
  "no_bias_arch =
     [\<lparr>a_type = ''input'', a_neurons = 1, a_activation = None, a_bias = None\<rparr>,
      \<lparr>a_type = ''output'', a_neurons = 1, a_activation = Some ''linear'', a_bias = Some False\<rparr>]"

definition no_bias_weights :: "layer_rec list" where
  "no_bias_weights =
     [\<lparr>r_in = Some 1, r_out = 1, r_activation = Some ''linear'', r_useBias = Some False,
       r_W = Some (mat [[1000]]), r_b = None\<rparr>]"

definition no_bias_payload :: payload where
  "no_bias_payload =
     \<lparr>p_layers = Absent, p_architecture = Array no_bias_arch, p_weights = Array no_bias_weights\<rparr>"

section \<open>Training\<close>

text \<open>
  \<open>shuffleInPlace\<close> on an array of indices. Its only caller passes a generator made by
  \<open>rng\<close>, whose values lie in \<open>[0, 1)\<close>, so that \<open>j = floor(rand() * (i + 1))\<close> is at most
  \<open>i\<close>. The loop runs \<open>i\<close> from the last index down to 1; \<open>shuffle_from\<close> takes \<open>i + 1\<close>.
\<close>

fun shuffle_from :: "nat \<Rightarrow> nat list \<Rightarrow> 32 word \<Rightarrow> nat list \<times> 32 word" where
  "shuffle_from 0 arr s = (arr, s)"
| "shuffle_from (Suc 0) arr s = (arr, s)"
| "shuffle_from (Suc i) arr s =
     (case rng_rand s of
        (u, s') \<Rightarrow>
          let j = nat \<lfloor>u * real (i + 1)\<rfloor>
          in shuffle_from i (arr[i := arr ! j, j := arr ! i]) s')"

definition shuffleInPlace :: "nat list \<Rightarrow> 32 word \<Rightarrow> nat list \<times> 32 word" where
  "shuffleInPlace arr s = shuffle_from (length arr) arr s"

text \<open>The pieces \<open>idx.slice(i, i + batch)\<close> for \<open>i = 0, batch, 2 * batch, ...\<close> below the
  length. With \<open>batch = 0\<close> the loop of \<open>getBatches\<close> never ends on a non-empty array;
  \<open>getBatches\<close> is \<open>None\<close> then and does not use \<open>slices\<close>.\<close>

function slices :: "nat \<Rightarrow> 'a list \<Rightarrow> 'a list list" where
  "slices batch xs = (if xs = [] \<or> batch = 0 then [] else take batch xs # slices batch (drop batch xs))"
  by pat_completeness auto
termination
  by (relation "measure (\<lambda>(batch, xs). length xs)") auto

text \<open>A batch is its rows of \<open>X\<close> and of \<open>y\<close>. An index beyond the end of \<open>y\<close> gives an
  \<open>undefined\<close> row; \<open>mse\<close>, the only reader of the rows of \<open>y\<close>, throws at the first
  such row, exactly as it does at the end of a shorter array, so the rows from the first
  \<open>undefined\<close> one on are dropped.\<close>

definition getBatches ::
  "matrix \<Rightarrow> matrix \<Rightarrow> nat \<Rightarrow> 32 word \<Rightarrow> ((matrix \<times> matrix) list \<times> 32 word) option" where
  "getBatches X y batch s =
     (if batch = 0 \<and> X \<noteq> [] then None
      else
        (case shuffleInPlace [0..<length X] s of
           (idx, s') \<Rightarrow>
             Some (map (\<lambda>slice. (map (\<lambda>j. X ! j) slice,
                                  map (\<lambda>j. y ! j) (takeWhile (\<lambda>j. j < length y) slice)))
                     (slices batch idx), s')))"

definition accuracyBinary :: "matrix \<Rightarrow> matrix \<Rightarrow> error + num" where
  "accuracyBinary pred y =
     (if length y < length pred then Inl TypeError
      else
        let hit = (\<lambda>i. let p = (case num_at (pred ! i) 0 of
                                   None \<Rightarrow> 0
                                 | Some v \<Rightarrow> if v \<ge> 0.5 then 1 else (0 :: real))
                        in num_at (y ! i) 0 = Some p)
        in Inr (jdiv (Some (real (length (filter hit [0..<length pred])))) (length pred)))"

text \<open>What a training run changes: the layers, the state of its generator, the labels
  and the losses of the chart (one of each per evaluated epoch) and the stop flag.\<close>

record train_state =
  t_net :: "DenseLayer list"
  t_rng :: "32 word"
  t_labels :: "nat list"
  t_losses :: "num list"
  t_stopFlag :: bool

text \<open>One batch: forward, loss gradient, backward.\<close>

definition train_batch ::
  "real \<Rightarrow> DenseLayer list \<Rightarrow> matrix \<times> matrix \<Rightarrow> error + DenseLayer list" where
  "train_batch lr layers b =
     (case net_forward layers (fst b) of
        Inl e \<Rightarrow> Inl e
      | Inr (layers1, ypred) \<Rightarrow>
          (case mse ypred (snd b) of
             Inl e \<Rightarrow> Inl e
           | Inr (_, dLdy) \<Rightarrow> net_backward layers1 dLdy lr))"

fun train_batches ::
  "real \<Rightarrow> DenseLayer list \<Rightarrow> (matrix \<times> matrix) list \<Rightarrow> error + DenseLayer list" where
  "train_batches lr layers [] = Inr layers"
| "train_batches lr layers (b # bs) =
     (case train_batch lr layers b of
        Inl e \<Rightarrow> Inl e
      | Inr layers' \<Rightarrow> train_batches lr layers' bs)"

text \<open>The body of the epoch loop up to the \<open>await\<close>: all batches, the evaluation on the
  whole dataset with its entry in the chart, and the forward pass on the first row of the
  dataset that \<open>computeNodeColorsForInput\<close> makes.\<close>

definition epoch_body ::
  "real \<Rightarrow> nat \<Rightarrow> matrix \<Rightarrow> matrix \<Rightarrow> nat \<Rightarrow> train_state \<Rightarrow> (error + train_state) option" where
  "epoch_body lr batch X y ep ts =
     (case getBatches X y batch (t_rng ts) of
        None \<Rightarrow> None
      | Some (batches, s') \<Rightarrow>
          Some
            (case train_batches lr (t_net ts) batches of
               Inl e \<Rightarrow> Inl e
             | Inr layers1 \<Rightarrow>
            (case net_forward layers1 X of
               Inl e \<Rightarrow> Inl e
             | Inr (layers2, fullPred) \<Rightarrow>
            (case mse fullPred y of
               Inl e \<Rightarrow> Inl e
             | Inr (L, _) \<Rightarrow>
            (case accuracyBinary fullPred y of
               Inl e \<Rightarrow> Inl e
             | Inr acc \<Rightarrow>
            (case net_forward layers2 [hd X] of
               Inl e \<Rightarrow> Inl e
             | Inr (layers3, _) \<Rightarrow>
                 Inr (ts\<lparr>t_net := layers3, t_rng := s',
                          t_labels := t_labels ts @ [ep],
                          t_losses := t_losses ts @ [L]\<rparr>)))))))"

text \<open>
  The epoch loop. The program runs on one thread: the handler of the Stop button, which
  sets \<open>stopFlag\<close>, can run only while \<open>trainLoop\<close> is suspended at the \<open>await\<close> that
  ends each epoch. \<open>clicks ep\<close> says whether it runs during the \<open>await\<close> of epoch \<open>ep\<close>;
  no other handler is taken to run during a training run.
\<close>

function train_epochs ::
  "real \<Rightarrow> nat \<Rightarrow> nat \<Rightarrow> (nat \<Rightarrow> bool) \<Rightarrow> matrix \<Rightarrow> matrix \<Rightarrow> nat \<Rightarrow> train_state
     \<Rightarrow> (error + train_state) option" where
  "train_epochs lr epochs batch clicks X y ep ts =
     (if ep \<le> epochs then
        (case epoch_body lr batch X y ep ts of
           None \<Rightarrow> None
         | Some (Inl e) \<Rightarrow> Some (Inl e)
         | Some (Inr ts1) \<Rightarrow>
             let ts2 = ts1\<lparr>t_stopFlag := t_stopFlag ts1 \<or> clicks ep\<rparr>
             in if t_stopFlag ts2 then Some (Inr ts2)
                else train_epochs lr epochs batch clicks X y (Suc ep) ts2)
      else Some (Inr ts))"
  by pat_completeness auto
termination
  by (relation "measure (\<lambda>(lr, epochs, batch, clicks, X, y, ep, ts). Suc epochs - ep)") auto

text \<open>\<open>trainLoop\<close>: without a dataset it alerts and returns; otherwise it empties the
  chart, clears the stop flag, copies the dataset and runs the epochs with a generator
  \<open>rng(42)\<close>.\<close>

definition trainLoop ::
  "real \<Rightarrow> nat \<Rightarrow> nat \<Rightarrow> (nat \<Rightarrow> bool) \<Rightarrow> state \<Rightarrow> (error + train_state) option" where
  "trainLoop lr epochs batch clicks st =
     (if dataset_X st = [] then
        Some (Inr \<lparr>t_net = net st, t_rng = rng 42, t_labels = [], t_losses = [],
                   t_stopFlag = stopFlag st\<rparr>)
      else
        train_epochs lr epochs batch clicks (dataset_X st) (dataset_y st) 1
          \<lparr>t_net = net st, t_rng = rng 42, t_labels = [], t_losses = [], t_stopFlag = False\<rparr>)"

text \<open>Running \<open>n\<close> epochs from epoch \<open>ep\<close> on with no cancellation at all, and the number
  of the epoch that ends a run: the first one during whose \<open>await\<close> Stop is clicked, or
  the last one.\<close>

fun run_epochs ::
  "real \<Rightarrow> nat \<Rightarrow> matrix \<Rightarrow> matrix \<Rightarrow> nat \<Rightarrow> nat \<Rightarrow> train_state \<Rightarrow> (error + train_state) option" where
  "run_epochs lr batch X y 0 ep ts = Some (Inr ts)"
| "run_epochs lr batch X y (Suc n) ep ts =
     (case epoch_body lr batch X y ep ts of
        None \<Rightarrow> None
      | Some (Inl e) \<Rightarrow> Some (Inl e)
      | Some (Inr ts1) \<Rightarrow> run_epochs lr batch X y n (Suc ep) ts1)"

definition last_epoch :: "(nat \<Rightarrow> bool) \<Rightarrow> nat \<Rightarrow> nat" where
  "last_epoch clicks epochs =
     (case find clicks [1..<Suc epochs] of None \<Rightarrow> epochs | Some ep \<Rightarrow> ep)"

definition stopped :: "(nat \<Rightarrow> bool) \<Rightarrow> nat \<Rightarrow> bool" where
  "stopped clicks epochs = list_ex clicks [1..<Suc epochs]"

definition set_stop :: "bool \<Rightarrow> (error + train_state) option \<Rightarrow> (error + train_state) option" where
  "set_stop f r = map_option (map_sum id (\<lambda>ts. ts\<lparr>t_stopFlag := f\<rparr>)) r"

text \<open>A state for the concrete instance: one linear layer without bias and a dataset
  of one row.\<close>

definition tiny_state :: state where
  "tiny_state =
     \<lparr>net = [\<lparr>l_in = 1, l_out = 1, l_activation = ''linear'', l_useBias = False,
              l_W = Some (mat [[1]]), l_b = None, l_X = None, l_Z = None, l_A = None\<rparr>],
      arch = [], inputSize = 1, outputSize = 1,
      dataset_X = mat [[1]], dataset_y = mat [[3]], stopFlag = True\<rparr>"

section \<open>Matrix operations on well-shaped arrays of numbers\<close>

lemma foldl_Some_sum:
  assumes "\<And>i a. i \<in> set ks \<Longrightarrow> h (Some a) i = Some (a + g i)"
  shows "foldl h (Some a) ks = Some (a + sum_list (map g ks))"
  using assms by (induction ks arbitrary: a) (simp_all add: add.assoc)

lemma sum_list_upt: "sum_list (map g [0..<n]) = (\<Sum>k<n. g k)"
  by (simp add: interv_sum_list_conv_sum_set_nat atLeast0LessThan)

lemma shape_nth: "shape m r c \<Longrightarrow> i < r \<Longrightarrow> length (m ! i) = c"
  by (simp add: shape_def)

lemma shape_hd: "shape m r c \<Longrightarrow> 1 \<le> r \<Longrightarrow> m \<noteq> [] \<and> length (hd m) = c"
  by (cases m) (auto simp: shape_def)

lemma shape_mat: "shape (mat m) r c = shape m r c"
  by (auto simp: shape_def mat_def)

lemma length_mat: "length (mat m) = length m"
  by (simp add: mat_def)

lemma num_at_mat: "shape m r c \<Longrightarrow> i < r \<Longrightarrow> j < c \<Longrightarrow> num_at (mat m ! i) j = Some (m ! i ! j)"
  by (simp add: shape_def mat_def num_at_def)

lemma fill_mat: "fill r c (\<lambda>i j. Some (g i j)) = mat (rmat r c g)"
  by (simp add: fill_def mat_def rmat_def comp_def)

lemma fill_cong: "(\<And>i j. i < r \<Longrightarrow> j < c \<Longrightarrow> f i j = g i j) \<Longrightarrow> fill r c f = fill r c g"
  by (simp add: fill_def)

lemma fill_Some: "(\<And>i j. i < r \<Longrightarrow> j < c \<Longrightarrow> f i j = Some (g i j)) \<Longrightarrow> fill r c f = mat (rmat r c g)"
  unfolding fill_mat [symmetric] by (rule fill_cong)

lemma shape_fill: "shape (fill r c f) r c"
  by (auto simp: shape_def fill_def)

lemma shape_zeros: "shape (zeros r c) r c"
  by (auto simp: shape_def zeros_def)

lemma shape_rmat: "shape (rmat r c g) r c"
  by (auto simp: shape_def rmat_def)

lemma rmat_nth: "i < r \<Longrightarrow> j < c \<Longrightarrow> rmat r c g ! i ! j = g i j"
  by (simp add: rmat_def)

lemma dot_mat:
  assumes P: "shape P r n" and Q: "shape Q n c" and n: "1 \<le> n"
  shows "dot (mat P) (mat Q) = Inr (mat (r_product r n c P Q))"
proof -
  have Q0: "mat Q \<noteq> []" "length (hd (mat Q)) = c" "length (mat Q) = n" "length (mat P) = r"
    using shape_hd [of "mat Q" n c] Q P n by (simp_all add: shape_mat) (simp_all add: shape_def mat_def)
  have "foldl (\<lambda>s k. jadd s (jmul (num_at (mat P ! i) k) (num_at (mat Q ! k) j))) (Some 0) [0..<n]
      = Some (\<Sum>k<n. P ! i ! k * Q ! k ! j)" if "i < r" "j < c" for i j
    using foldl_Some_sum [where h = "\<lambda>s k. jadd s (jmul (num_at (mat P ! i) k) (num_at (mat Q ! k) j))"
        and ks = "[0..<n]" and g = "\<lambda>k. P ! i ! k * Q ! k ! j" and a = 0] that P Q
    by (simp add: num_at_mat jadd_def jmul_def sum_list_upt)
  then show ?thesis
    unfolding dot_def r_product_def using Q0 by (simp add: fill_Some)
qed

lemma hadamard_mat:
  assumes P: "shape P r c" and Q: "shape Q r c" and r: "1 \<le> r"
  shows "hadamard (mat P) (mat Q) = Inr (mat (r_hadamard r c P Q))"
proof -
  have P0: "mat P \<noteq> []" "length (hd (mat P)) = c" "length (mat P) = r" "length (mat Q) = r"
    using shape_hd [of "mat P" r c] Q P r by (simp_all add: shape_mat) (simp_all add: shape_def mat_def)
  have "jmul (num_at (mat P ! i) j) (num_at (mat Q ! i) j) = Some (P ! i ! j * Q ! i ! j)"
    if "i < r" "j < c" for i j
    using that P Q by (simp add: num_at_mat jmul_def)
  then show ?thesis
    unfolding hadamard_def r_hadamard_def using P0 by (simp add: fill_Some)
qed

lemma transpose_mat:
  assumes P: "shape P r c" and r: "1 \<le> r"
  shows "transpose_m (mat P) = Inr (mat (r_transpose r c P))"
proof -
  have P0: "mat P \<noteq> []" "length (hd (mat P)) = c" "length (mat P) = r"
    using shape_hd [of "mat P" r c] P r by (simp_all add: shape_mat) (simp_all add: shape_def mat_def)
  have "num_at (mat P ! i) j = Some (P ! i ! j)" if "i < r" "j < c" for i j
    using that P by (simp add: num_at_mat)
  then show ?thesis
    unfolding transpose_m_def r_transpose_def using P0 by (simp add: fill_Some)
qed

lemma colsum_mat:
  assumes G: "shape G r c" and j: "j < c"
  shows "foldl (\<lambda>s row. jadd s (num_at row j)) (Some 0) (mat G) = Some (\<Sum>i<r. G ! i ! j)"
proof -
  have "foldl (\<lambda>s row. jadd s (num_at row j)) (Some 0) (mat G)
      = Some (0 + sum_list (map (\<lambda>row. the (num_at row j)) (mat G)))"
    by (rule foldl_Some_sum) (use G j in \<open>auto simp: mat_def shape_def num_at_def jadd_def\<close>)
  also have "map (\<lambda>row. the (num_at row j)) (mat G) = map (\<lambda>i. G ! i ! j) [0..<r]"
    using G j by (auto simp: mat_def shape_def num_at_def intro!: nth_equalityI)
  finally show ?thesis by (simp add: sum_list_upt)
qed

lemma update_row_mat:
  assumes "length row = n" "length g = n" "1 \<le> r"
  shows "update_row lr r n (map Some row) (map Some g)
     = map Some (map (\<lambda>j. row ! j - lr * g ! j / real r) [0..<n])"
  using assms by (simp add: update_row_def num_at_def jsub_def jdiv_def jmul_def)

lemma Activations_df:
  assumes "name \<in> {''relu'', ''sigmoid'', ''tanh'', ''linear''}"
  shows "\<exists>ac. Activations name = Some ac \<and> (\<forall>y. act_df ac (Some y) = Some (df_real name y))"
  using assms
  by (auto simp: Activations_def df_real_def relu_act_def sigmoid_act_def tanh_act_def
      linear_act_def jmul_def jsub_def)

lemma shape_r_hadamard: "shape (r_hadamard r c P Q) r c"
  by (simp add: r_hadamard_def shape_rmat)

lemma shape_r_transpose: "shape (r_transpose r c P) c r"
  by (simp add: r_transpose_def shape_rmat)

lemma shape_r_product: "shape (r_product r n c P Q) r c"
  by (simp add: r_product_def shape_rmat)

lemma map_df_mat:
  assumes "\<forall>y. act_df ac (Some y) = Some (d y)"
  shows "map (map (act_df ac)) (mat A) = mat (map (map d) A)"
  using assms by (simp add: mat_def)

lemma shape_map_map: "shape (map (map d) A) r c = shape A r c"
  by (auto simp: shape_def)

lemma mat_nth: "i < length M \<Longrightarrow> mat M ! i = map Some (M ! i)"
  by (simp add: mat_def)

lemma rmat_cong: "(\<And>i j. i < r \<Longrightarrow> j < c \<Longrightarrow> f i j = g i j) \<Longrightarrow> rmat r c f = rmat r c g"
  by (simp add: rmat_def)

lemma update_rows_mat:
  assumes W: "shape W n m" and D: "shape D n m" and r: "1 \<le> r"
  shows "map (\<lambda>i. update_row lr r m (mat W ! i) (mat D ! i)) [0..<n]
     = mat (rmat n m (\<lambda>i j. W ! i ! j - lr * D ! i ! j / real r))"
proof -
  have "update_row lr r m (mat W ! i) (mat D ! i) = map Some (map (\<lambda>j. W ! i ! j - lr * D ! i ! j / real r) [0..<m])"
    if "i < n" for i
    using that W D r by (simp add: mat_nth shape_def update_row_mat)
  then show ?thesis by (simp add: mat_def rmat_def)
qed

section \<open>The backward pass of a dense layer\<close>

text \<open>
  Claim C1. For a dense layer with weights \<open>W\<close> (\<open>n \<times> m\<close>), cached input \<open>X\<close>
  (\<open>r \<times> n\<close>), cached output \<open>A\<close> (\<open>r \<times> m\<close>), a gradient \<open>dA\<close> of the shape of \<open>A\<close> and
  any learning rate, \<open>backward\<close> computes \<open>G = dA \<odot> df(A)\<close>, replaces every weight
  \<open>W[i][j]\<close> by \<open>W[i][j] - lr * (transpose(X) \<cdot> G)[i][j] / r\<close>, replaces every bias
  entry \<open>b[0][j]\<close> by \<open>b[0][j] - lr * (column sum j of G) / r\<close> exactly when the bias is
  enabled and leaves \<open>b\<close> as it is otherwise, and returns \<open>G \<cdot> transpose(W)\<close> for the
  weights before the update. All widths and the batch size are positive.
\<close>

theorem backward_correct:
  assumes act: "l_activation L \<in> {''relu'', ''sigmoid'', ''tanh'', ''linear''}"
    and W: "l_W L = Some (mat W)" "shape W n m"
    and X: "l_X L = Some (mat X)" "shape X r n"
    and A: "l_A L = Some (mat A)" "shape A r m"
    and dA: "shape dA r m"
    and bias: "l_useBias L \<longrightarrow> l_b L = Some (mat [b]) \<and> length b = m"
    and pos: "1 \<le> r" "1 \<le> n" "1 \<le> m"
  shows "backward L (mat dA) lr =
    Inr (L\<lparr>l_W := Some (mat (rmat n m (\<lambda>i j. W ! i ! j -
                 lr * r_product n r m (r_transpose r n X) (gradPreActivation (l_activation L) r m dA A) ! i ! j / real r))),
           l_b := if l_useBias L
                  then Some (mat [map (\<lambda>j. b ! j -
                         lr * r_colsum r m (gradPreActivation (l_activation L) r m dA A) ! j / real r) [0..<m]])
                  else l_b L\<rparr>,
         mat (r_product r m n (gradPreActivation (l_activation L) r m dA A) (r_transpose n m W)))"
proof -
  let ?G = "gradPreActivation (l_activation L) r m dA A"
  obtain ac where ac: "Activations (l_activation L) = Some ac"
    and df: "\<forall>y. act_df ac (Some y) = Some (df_real (l_activation L) y)"
    using Activations_df [OF act] by blast
  have A0: "mat A \<noteq> []" "length (mat A) = r" "length (hd (mat A)) = m"
    using shape_hd [of "mat A" r m] A(2) pos(1) by (simp_all add: shape_mat) (simp add: shape_def mat_def)
  have W0: "mat W \<noteq> []" "length (mat W) = n" "length (hd (mat W)) = m"
    using shape_hd [of "mat W" n m] W(2) pos(2) by (simp_all add: shape_mat) (simp add: shape_def mat_def)
  have G: "shape ?G r m" by (simp add: gradPreActivation_def shape_r_hadamard)
  have dZ: "hadamard (mat dA) (map (map (act_df ac)) (mat A)) = Inr (mat ?G)"
    unfolding map_df_mat [OF df] gradPreActivation_def
    by (rule hadamard_mat) (use pos in \<open>simp_all add: dA A shape_map_map\<close>)
  have Xt: "transpose_m (mat X) = Inr (mat (r_transpose r n X))"
    by (rule transpose_mat) (use pos in \<open>simp_all add: X\<close>)
  have dW: "dot (mat (r_transpose r n X)) (mat ?G) = Inr (mat (r_product n r m (r_transpose r n X) ?G))"
    by (rule dot_mat) (use pos in \<open>simp_all add: shape_r_transpose G\<close>)
  have Wt: "transpose_m (mat W) = Inr (mat (r_transpose n m W))"
    by (rule transpose_mat) (use pos in \<open>simp_all add: W\<close>)
  have dX: "dot (mat ?G) (mat (r_transpose n m W)) = Inr (mat (r_product r m n ?G (r_transpose n m W)))"
    by (rule dot_mat) (use pos in \<open>simp_all add: shape_r_transpose G\<close>)
  have dB: "map (\<lambda>j. foldl (\<lambda>s row. jadd s (num_at row j)) (Some 0) (mat ?G)) [0..<m]
      = map Some (r_colsum r m ?G)"
    using G by (simp add: colsum_mat r_colsum_def)
  have w': "map (\<lambda>i. update_row lr r m (mat W ! i) (mat (r_product n r m (r_transpose r n X) ?G) ! i)) [0..<n]
      = mat (rmat n m (\<lambda>i j. W ! i ! j - lr * r_product n r m (r_transpose r n X) ?G ! i ! j / real r))"
    by (rule update_rows_mat) (use pos in \<open>simp_all add: W shape_r_product\<close>)
  have ldW: "length (mat (r_product n r m (r_transpose r n X) ?G)) = n"
    using shape_r_product [of n r m] by (simp add: shape_def length_mat)
  have core: "backward L (mat dA) lr =
      (let w' = mat (rmat n m (\<lambda>i j. W ! i ! j - lr * r_product n r m (r_transpose r n X) ?G ! i ! j / real r)) in
       if l_useBias L then
         (case l_b L of None \<Rightarrow> Inl TypeError
          | Some bm \<Rightarrow> if bm = [] then Inl TypeError
              else Inr (L\<lparr>l_W := Some w',
                     l_b := Some (update_row lr r (length (hd bm)) (hd bm) (map Some (r_colsum r m ?G)) # tl bm)\<rparr>,
                   mat (r_product r m n ?G (r_transpose n m W))))
       else Inr (L\<lparr>l_W := Some w'\<rparr>, mat (r_product r m n ?G (r_transpose n m W))))"
    unfolding backward_def
    by (simp only: A W X ac option.case A0 W0 if_False Let_def dZ Xt dW Wt dX sum.case dB w' ldW
        less_irrefl simp_thms)
  show ?thesis
  proof (cases "l_useBias L")
    case False
    then show ?thesis unfolding core by simp
  next
    case True
    then have b: "l_b L = Some (mat [b])" "length b = m" using bias by simp_all
    have lc: "length (r_colsum r m ?G) = m" by (simp add: r_colsum_def)
    have "update_row lr r m (map Some b) (map Some (r_colsum r m ?G))
        = map Some (map (\<lambda>j. b ! j - lr * r_colsum r m ?G ! j / real r) [0..<m])"
      by (rule update_row_mat) (use pos in \<open>simp_all add: b lc\<close>)
    then show ?thesis unfolding core using True b by (simp add: mat_def)
  qed
qed

theorem backward_correct_witness:
  "backward example_layer (mat [[1], [1]]) 2 =
     Inr (example_layer\<lparr>l_W := Some (mat [[- 6]]), l_b := Some (mat [[- 1]])\<rparr>, mat [[2], [2]])"
  using backward_correct [of example_layer "[[2]]" 1 1 "[[3], [5]]" 2 "[[7], [11]]" "[[1], [1]]" "[1]" 2]
  by (simp add: example_layer_def shape_def rmat_def r_product_def r_transpose_def r_colsum_def
      gradPreActivation_def r_hadamard_def df_real_def eval_nat_numeral lessThan_Suc)

section \<open>Mean squared error\<close>

text \<open>
  Claim C2. For predictions and targets of the same shape \<open>r \<times> c\<close> with \<open>r \<ge> 1\<close> and
  \<open>c \<ge> 1\<close>, \<open>mse\<close> returns the pair of the mean over the rows of the per-row sums of
  \<open>(pred[i][j] - target[i][j])\<^sup>2\<close>, and the matrix of the same shape whose entry
  \<open>[i][j]\<close> is \<open>2 * (pred[i][j] - target[i][j]) / c\<close>: the gradient is divided by the
  output width, not by the batch size.
\<close>

theorem mse_correct:
  assumes P: "shape P r c" and T: "shape T r c" and r: "1 \<le> r" and c: "1 \<le> c"
  shows "mse (mat P) (mat T) =
    Inr (Some ((\<Sum>i<r. \<Sum>j<c. (P ! i ! j - T ! i ! j)\<^sup>2) / real r),
         mat (rmat r c (\<lambda>i j. 2 * (P ! i ! j - T ! i ! j) / real c)))"
proof -
  obtain p0 ps where Pc: "P = p0 # ps" using P r by (cases P) (auto simp: shape_def)
  have lp0: "length p0 = c" using P Pc by (simp add: shape_def)
  have lP: "length P = r" and lT: "length T = r" using P T by (simp_all add: shape_def)
  let ?e = "\<lambda>i j. jsub (num_at (mat P ! i) j) (num_at (mat T ! i) j)"
  have e: "?e i j = Some (P ! i ! j - T ! i ! j)" if "i < r" "j < c" for i j
    using that P T by (simp add: num_at_mat jsub_def)
  have inner: "foldl (\<lambda>s j. jadd s (jmul (?e i j) (?e i j))) (Some a) [0..<c]
      = Some (a + (\<Sum>j<c. (P ! i ! j - T ! i ! j)\<^sup>2))" if "i < r" for i a
    unfolding sum_list_upt [symmetric]
    by (rule foldl_Some_sum) (simp add: e that jmul_def jadd_def power2_eq_square)
  have outer: "foldl (\<lambda>s i. foldl (\<lambda>s j. jadd s (jmul (?e i j) (?e i j))) s [0..<c]) (Some 0) [0..<r]
      = Some (\<Sum>i<r. \<Sum>j<c. (P ! i ! j - T ! i ! j)\<^sup>2)"
    using foldl_Some_sum [where h = "\<lambda>s i. foldl (\<lambda>s j. jadd s (jmul (?e i j) (?e i j))) s [0..<c]"
        and ks = "[0..<r]" and g = "\<lambda>i. \<Sum>j<c. (P ! i ! j - T ! i ! j)\<^sup>2" and a = 0]
    by (simp add: inner sum_list_upt)
  have grad: "fill r c (\<lambda>i j. jdiv (jmul (Some 2) (?e i j)) c)
      = mat (rmat r c (\<lambda>i j. 2 * (P ! i ! j - T ! i ! j) / real c))"
    unfolding fill_mat [symmetric]
    by (rule fill_cong) (use c in \<open>simp add: e jmul_def jdiv_def\<close>)
  have lens: "length (mat P) = r" "length (mat T) = r" "mat P \<noteq> []" "length (hd (mat P)) = c"
    using lP lT Pc lp0 by (simp_all add: mat_def)
  show ?thesis
    unfolding mse_def Let_def lens outer grad
    using r lens(3) by (simp add: jdiv_def)
qed

theorem mse_correct_witness:
  "shape [[1, 2 :: real]] 1 2 \<and> shape [[0, 0 :: real]] 1 2 \<and>
   mse (mat [[1, 2]]) (mat [[0, 0]]) = Inr (Some 5, mat [[1, 2]])"
  using mse_correct [of "[[1, 2]]" 1 2 "[[0, 0]]"]
  by (simp add: shape_def rmat_def eval_nat_numeral lessThan_Suc)

section \<open>The forward pass of a network\<close>

lemma addBias_shape:
  assumes a: "shape a r c" and r: "1 \<le> r" and bm: "bm \<noteq> []"
  shows "\<exists>Z. addBias a (Some bm) = Inr Z \<and> shape Z r c"
proof -
  have a0: "a \<noteq> []" "length a = r" "length (hd a) = c"
    using shape_hd [OF a r] a by (simp_all add: shape_def)
  show ?thesis
    by (cases "c = 0") (simp_all add: addBias_def a0 bm shape_fill shape_zeros)
qed

lemma applyActivation_shape:
  assumes a: "shape a r c" and r: "1 \<le> r"
  shows "\<exists>Y. applyActivation a (Some ac) = Inr Y \<and> shape Y r c"
proof -
  have a0: "a \<noteq> []" "length a = r" "length (hd a) = c"
    using shape_hd [OF a r] a by (simp_all add: shape_def)
  show ?thesis
    by (cases "c = 0") (simp_all add: applyActivation_def a0 shape_fill shape_zeros)
qed

lemma forward_shape:
  assumes v: "valid_layer L" and X: "shape X r (l_in L)" and r: "1 \<le> r"
  shows "\<exists>L' Y. forward L X = Inr (L', Y) \<and> shape Y r (l_out L)"
proof -
  obtain w where w: "l_W L = Some w" "shape w (l_in L) (l_out L)"
    using v by (auto simp: valid_layer_def split: option.splits)
  have w0: "w \<noteq> []" "length (hd w) = l_out L"
    using shape_hd [OF w(2)] v by (simp_all add: valid_layer_def)
  have lX: "length X = r" using X by (simp add: shape_def)
  have XW: "dot X w = Inr (fill r (l_out L)
      (\<lambda>i j. foldl (\<lambda>s k. jadd s (jmul (num_at (X ! i) k) (num_at (w ! k) j))) (Some 0) [0..<length w]))"
    using w0 lX by (simp add: dot_def)
  obtain ac where ac: "Activations (l_activation L) = Some ac"
    using v by (auto simp: valid_layer_def Activations_def)
  have "\<exists>bm. (if l_useBias L then l_b L else Some (zeros 1 (l_out L))) = Some bm \<and> bm \<noteq> []"
    using v by (auto simp: valid_layer_def zeros_def shape_def split: option.splits)
  then obtain bm where bm: "(if l_useBias L then l_b L else Some (zeros 1 (l_out L))) = Some bm" "bm \<noteq> []"
    by blast
  obtain Zl where Zl: "addBias (fill r (l_out L)
      (\<lambda>i j. foldl (\<lambda>s k. jadd s (jmul (num_at (X ! i) k) (num_at (w ! k) j))) (Some 0) [0..<length w]))
      (Some bm) = Inr Zl" "shape Zl r (l_out L)"
    using addBias_shape [OF shape_fill r bm(2)] by blast
  obtain Ao where Ao: "applyActivation Zl (Some ac) = Inr Ao" "shape Ao r (l_out L)"
    using applyActivation_shape [OF Zl(2) r] by blast
  show ?thesis
    unfolding forward_def w option.case XW sum.case bm Zl(1) ac Ao(1) using Ao(2) by simp
qed

text \<open>
  Claim C3. For a network whose layers chain consistently from the declared input size
  \<open>n\<close> and an input batch of \<open>r \<ge> 1\<close> rows and \<open>n\<close> columns, \<open>Network.forward\<close>
  succeeds; it applies the layers' \<open>forward\<close> from left to right, the output of each
  being the input of the next (\<open>ins\<close> lists the batch followed by the successive
  outputs), it returns the last output, and that output has \<open>r\<close> rows and as many
  columns as the last layer's output width.
\<close>

theorem net_forward_shape:
  assumes "chain_ok n Ls" and "shape X r n" and "1 \<le> r"
  shows "\<exists>Ls' ins. net_forward Ls X = Inr (Ls', last ins) \<and>
           length Ls' = length Ls \<and> length ins = Suc (length Ls) \<and> hd ins = X \<and>
           (\<forall>k<length Ls. forward (Ls ! k) (ins ! k) = Inr (Ls' ! k, ins ! Suc k)) \<and>
           shape (last ins) r (final_width n Ls)"
  using assms
proof (induction Ls arbitrary: n X)
  case Nil
  show ?case
    by (rule exI [of _ "[]"], rule exI [of _ "[X]"]) (use Nil in \<open>simp add: final_width_def\<close>)
next
  case (Cons L Ls)
  from Cons.prems have v: "valid_layer L" and n: "l_in L = n" and ch: "chain_ok (l_out L) Ls"
    by simp_all
  obtain L' Y where f: "forward L X = Inr (L', Y)" and Y: "shape Y r (l_out L)"
    using forward_shape [OF v _ Cons.prems(3)] Cons.prems(2) n by blast
  obtain Ls' ins where IH: "net_forward Ls Y = Inr (Ls', last ins)"
      "length Ls' = length Ls" "length ins = Suc (length Ls)" "hd ins = Y"
      "\<forall>k<length Ls. forward (Ls ! k) (ins ! k) = Inr (Ls' ! k, ins ! Suc k)"
      "shape (last ins) r (final_width (l_out L) Ls)"
    using Cons.IH [OF ch Y Cons.prems(3)] by blast
  have ins: "ins \<noteq> []" "ins ! 0 = Y" using IH(3,4) by (cases ins; simp)+
  have fw: "final_width n (L # Ls) = final_width (l_out L) Ls"
    by (simp add: final_width_def)
  have steps: "forward ((L # Ls) ! k) ((X # ins) ! k) = Inr ((L' # Ls') ! k, (X # ins) ! Suc k)"
    if "k < length (L # Ls)" for k
    using that f IH(5) ins by (cases k) simp_all
  show ?case
    apply (rule exI [of _ "L' # Ls'"], rule exI [of _ "X # ins"])
    using f IH(1,2,3,6) ins(1) steps unfolding fw by simp
qed

theorem net_forward_shape_witness:
  "chain_ok 1 [example_layer, example_layer] \<and> shape (mat [[3], [4]]) 2 1 \<and>
   (\<exists>Ls' ins. net_forward [example_layer, example_layer] (mat [[3], [4]]) = Inr (Ls', last ins) \<and>
      length Ls' = 2 \<and> length ins = 3 \<and> hd ins = mat [[3], [4]] \<and>
      (\<forall>k<2. forward ([example_layer, example_layer] ! k) (ins ! k) = Inr (Ls' ! k, ins ! Suc k)) \<and>
      shape (last ins) 2 1)"
proof -
  have c: "chain_ok 1 [example_layer, example_layer]"
    by (simp add: example_layer_def valid_layer_def shape_def mat_def)
  have s: "shape (mat [[3], [4]]) 2 1"
    by (simp add: shape_def mat_def)
  have fw: "final_width 1 [example_layer, example_layer] = 1"
    by (simp add: final_width_def example_layer_def)
  show ?thesis
    using net_forward_shape [OF c s] c s unfolding fw
    by (simp add: numeral_2_eq_2 numeral_3_eq_3 del: net_forward.simps)
qed

section \<open>The weight initializer returns finite entries\<close>

lemma after_0: "after rand 0 s = s" by (simp add: after_def)
lemma after_Suc: "after rand (Suc k) s = after rand k (snd (rand s))"
  unfolding after_def funpow_Suc_right by simp
lemma after_add: "after rand k (after rand n s) = after rand (k + n) s"
  by (simp add: after_def funpow_add)
lemma nth_value_after: "nth_value rand (after rand n s) k = nth_value rand s (k + n)"
  by (simp add: nth_value_def after_add)

lemma draw_first_nonzero:
  assumes "nth_value rand s j \<noteq> 0" and "\<forall>i<j. nth_value rand s i = 0"
  shows "draw rand s = Some (nth_value rand s j, after rand (Suc j) s)"
  using assms
proof (induction j arbitrary: s)
  case 0
  obtain u s' where rs: "rand s = (u, s')" by (cases "rand s")
  with 0 have "u \<noteq> 0" by (simp add: nth_value_def after_0)
  then show ?case
    by (subst draw.simps) (simp add: rs nth_value_def after_Suc after_0)
next
  case (Suc j)
  obtain u s' where rs: "rand s = (u, s')" by (cases "rand s")
  have z: "u = 0" using Suc.prems(2) [rule_format, of 0] by (simp add: nth_value_def after_0 rs)
  have o: "nth_value rand s' i = nth_value rand s (Suc i)" for i
    by (simp add: nth_value_def after_Suc rs)
  have "draw rand s' = Some (nth_value rand s' j, after rand (Suc j) s')"
    by (rule Suc.IH) (use Suc.prems in \<open>auto simp: o\<close>)
  then show ?case
    by (subst draw.simps) (simp add: rs z o after_Suc [of rand "Suc j" s])
qed

lemma draw_returns:
  assumes u: "uniform_source rand s" and n: "nonzero_again rand s"
  shows "\<exists>j. draw rand s = Some (nth_value rand s j, after rand (Suc j) s) \<and>
             0 < nth_value rand s j \<and> nth_value rand s j < 1"
proof -
  obtain j0 where "nth_value rand s j0 \<noteq> 0" using n by (auto simp: nonzero_again_def)
  then obtain j where j: "nth_value rand s j \<noteq> 0" "\<forall>i<j. nth_value rand s i = 0"
    using exists_least_iff [of "\<lambda>j. nth_value rand s j \<noteq> 0"] by auto
  have "0 \<le> nth_value rand s j" "nth_value rand s j < 1" using u by (simp_all add: uniform_source_def)
  with j draw_first_nonzero [OF j] show ?thesis by (intro exI [of _ j]) simp
qed

lemma uniform_after: "uniform_source rand s \<Longrightarrow> uniform_source rand (after rand n s)"
  by (simp add: uniform_source_def nth_value_after)

lemma nonzero_after: "nonzero_again rand s \<Longrightarrow> nonzero_again rand (after rand n s)"
  unfolding nonzero_again_def nth_value_after
proof
  fix k assume a: "\<forall>k. \<exists>j\<ge>k. nth_value rand s j \<noteq> 0"
  obtain j where "j \<ge> k + n" "nth_value rand s j \<noteq> 0" using a by blast
  then show "\<exists>j\<ge>k. nth_value rand s (j + n) \<noteq> 0"
    by (intro exI [of _ "j - n"]) simp
qed

lemma entry_value:
  assumes "0 < u" "u < 1"
  shows "jmul (jmul (Math_sqrt (jmul (Some (- 2)) (Math_log u))) (Some (cos (2 * pi * v)))) (Some 0.1)
    = Some (box_muller u v * 0.1)"
proof -
  have "ln u < 0" using assms by simp
  then have "0 \<le> - 2 * ln u" by simp
  then show ?thesis using assms
    by (simp add: Math_log_def Math_sqrt_def jmul_def box_muller_def)
qed

lemma from_draws_after: "from_draws rand (after rand n s) z \<Longrightarrow> from_draws rand s z"
  unfolding from_draws_def nth_value_after
  by (elim exE, rule_tac x = "i + n" in exI, rule_tac x = "j + n" in exI) simp

lemma randn_entry_returns:
  assumes u: "uniform_source rand s" and n: "nonzero_again rand s"
  shows "\<exists>z k. randn_entry rand s = Some (z, after rand k s) \<and> from_draws rand s z"
proof -
  obtain j where j: "draw rand s = Some (nth_value rand s j, after rand (Suc j) s)"
      "0 < nth_value rand s j" "nth_value rand s j < 1"
    using draw_returns [OF u n] by blast
  let ?s1 = "after rand (Suc j) s"
  obtain i where i: "draw rand ?s1 = Some (nth_value rand ?s1 i, after rand (Suc i) ?s1)"
      "0 < nth_value rand ?s1 i" "nth_value rand ?s1 i < 1"
    using draw_returns [OF uniform_after [OF u] nonzero_after [OF n]] by blast
  have v: "nth_value rand ?s1 i = nth_value rand s (i + Suc j)" by (rule nth_value_after)
  have "randn_entry rand s = Some (Some (box_muller (nth_value rand s j) (nth_value rand s (i + Suc j)) * 0.1),
      after rand (Suc i + Suc j) s)"
    by (simp add: randn_entry_def j(1) i(1) entry_value [OF j(2,3)] after_add v)
  moreover have "from_draws rand s (Some (box_muller (nth_value rand s j) (nth_value rand s (i + Suc j)) * 0.1))"
    unfolding from_draws_def using j(2,3) i(2,3) unfolding v
    by (intro exI [of _ j] exI [of _ "i + Suc j"]) simp
  ultimately show ?thesis by blast
qed

lemma randn_row_returns:
  assumes "uniform_source rand s" and "nonzero_again rand s"
  shows "\<exists>row k. randn_row c rand s = Some (row, after rand k s) \<and> length row = c \<and>
           (\<forall>z\<in>set row. from_draws rand s z)"
  using assms
proof (induction c arbitrary: s)
  case 0
  show ?case by (simp add: exI [of _ 0] after_0)
next
  case (Suc c)
  obtain z k where z: "randn_entry rand s = Some (z, after rand k s)" "from_draws rand s z"
    using randn_entry_returns [OF Suc.prems] by blast
  obtain row k' where row: "randn_row c rand (after rand k s) = Some (row, after rand k' (after rand k s))"
      "length row = c" "\<forall>z\<in>set row. from_draws rand (after rand k s) z"
    using Suc.IH [OF uniform_after [OF Suc.prems(1)] nonzero_after [OF Suc.prems(2)]] by blast
  show ?case
    by (rule exI [of _ "z # row"], rule exI [of _ "k' + k"])
      (use z row in \<open>auto simp: after_add intro: from_draws_after\<close>)
qed

lemma randn_returns:
  assumes "uniform_source rand s" and "nonzero_again rand s"
  shows "\<exists>M k. randn r c rand s = Some (M, after rand k s) \<and> shape M r c \<and>
           (\<forall>row\<in>set M. \<forall>z\<in>set row. from_draws rand s z)"
  using assms
proof (induction r arbitrary: s)
  case 0
  show ?case by (simp add: exI [of _ 0] after_0 shape_def)
next
  case (Suc r)
  obtain row k where row: "randn_row c rand s = Some (row, after rand k s)" "length row = c"
      "\<forall>z\<in>set row. from_draws rand s z"
    using randn_row_returns [OF Suc.prems] by blast
  obtain M k' where M: "randn r c rand (after rand k s) = Some (M, after rand k' (after rand k s))"
      "shape M r c" "\<forall>row\<in>set M. \<forall>z\<in>set row. from_draws rand (after rand k s) z"
    using Suc.IH [OF uniform_after [OF Suc.prems(1)] nonzero_after [OF Suc.prems(2)]] by blast
  show ?case
    by (rule exI [of _ "row # M"], rule exI [of _ "k' + k"])
      (use row M in \<open>auto simp: after_add shape_def intro: from_draws_after\<close>)
qed

lemma draw_Some:
  assumes "draw rand s = Some y"
  shows "\<exists>j. fst y = nth_value rand s j \<and> fst y \<noteq> 0 \<and> snd y = after rand (Suc j) s"
  using assms
proof (induction rule: draw.raw_induct [rotated 1, consumes 1])
  case (1 draw' rand s y)
  obtain a t where rs: "rand s = (a, t)" by (cases "rand s")
  show ?case
  proof (cases "a = 0")
    case True
    with 1(2) rs have "draw' rand t = Some y" by simp
    from 1(1) [OF this] obtain j where j: "fst y = nth_value rand t j" "fst y \<noteq> 0" "snd y = after rand (Suc j) t"
      by blast
    have "nth_value rand t j = nth_value rand s (Suc j)" by (simp add: nth_value_def after_Suc rs)
    moreover have "after rand (Suc j) t = after rand (Suc (Suc j)) s"
      by (simp add: after_Suc [of rand "Suc j" s] rs)
    ultimately show ?thesis using j by (intro exI [of _ "Suc j"]) simp
  next
    case False
    with 1(2) rs have "y = (a, t)" by simp
    with False rs show ?thesis
      by (intro exI [of _ 0]) (simp add: nth_value_def after_0 after_Suc)
  qed
qed

lemma randn_entry_Some:
  assumes u: "uniform_source rand s" and e: "randn_entry rand s = Some (z, s')"
  shows "from_draws rand s z \<and> (\<exists>k. s' = after rand k s)"
proof -
  obtain y1 where y1: "draw rand s = Some y1" using e by (auto simp: randn_entry_def split: option.splits)
  obtain j where j: "fst y1 = nth_value rand s j" "fst y1 \<noteq> 0" "snd y1 = after rand (Suc j) s"
    using draw_Some [OF y1] by blast
  obtain y2 where y2: "draw rand (snd y1) = Some y2"
    using e y1 by (auto simp: randn_entry_def split: option.splits prod.splits)
  obtain i where i: "fst y2 = nth_value rand (snd y1) i" "fst y2 \<noteq> 0" "snd y2 = after rand (Suc i) (snd y1)"
    using draw_Some [OF y2] by blast
  have v: "fst y2 = nth_value rand s (i + Suc j)" unfolding i(1) j(3) by (rule nth_value_after)
  have r1: "0 < fst y1" "fst y1 < 1" using u j(1,2) unfolding uniform_source_def
    by (metis less_eq_real_def)+
  have r2: "0 < fst y2" "fst y2 < 1" using u v i(2) unfolding uniform_source_def
    by (metis less_eq_real_def)+
  have "randn_entry rand s = Some (Some (box_muller (fst y1) (fst y2) * 0.1), snd y2)"
    using y1 y2 entry_value [OF r1, of "fst y2"] by (cases y1; cases y2) (simp add: randn_entry_def)
  with e have z: "z = Some (box_muller (fst y1) (fst y2) * 0.1)" and s': "s' = snd y2" by simp_all
  have "from_draws rand s z"
    unfolding from_draws_def z using r1 r2 unfolding j(1) v
    by (intro exI [of _ j] exI [of _ "i + Suc j"]) simp
  moreover have "s' = after rand (Suc i + Suc j) s"
    unfolding s' i(3) j(3) by (simp only: after_add)
  ultimately show ?thesis by blast
qed

lemma randn_row_Some:
  assumes "uniform_source rand s" and "randn_row c rand s = Some (row, s')"
  shows "length row = c \<and> (\<forall>z\<in>set row. from_draws rand s z) \<and> (\<exists>k. s' = after rand k s)"
  using assms
proof (induction c arbitrary: s row s')
  case 0
  then show ?case by (auto intro: exI [of _ 0] simp: after_0)
next
  case (Suc c)
  from Suc.prems(2) obtain z s1 zs where e: "randn_entry rand s = Some (z, s1)"
    and r: "randn_row c rand s1 = Some (zs, s')" and row: "row = z # zs"
    by (auto split: option.splits)
  from randn_entry_Some [OF Suc.prems(1) e] obtain k where z: "from_draws rand s z" and k: "s1 = after rand k s"
    by blast
  have u1: "uniform_source rand s1" unfolding k by (rule uniform_after [OF Suc.prems(1)])
  from Suc.IH [OF u1 r] obtain k' where zs: "length zs = c" "\<forall>z\<in>set zs. from_draws rand s1 z"
    and k': "s' = after rand k' s1" by blast
  have "\<forall>z\<in>set zs. from_draws rand s z" using zs(2) unfolding k by (blast intro: from_draws_after)
  moreover have "s' = after rand (k' + k) s" unfolding k' k by (simp only: after_add)
  ultimately show ?case using z zs(1) row by auto
qed

lemma randn_Some:
  assumes "uniform_source rand s" and "randn r c rand s = Some (M, s')"
  shows "shape M r c \<and> (\<forall>row\<in>set M. \<forall>z\<in>set row. from_draws rand s z) \<and> (\<exists>k. s' = after rand k s)"
  using assms
proof (induction r arbitrary: s M s')
  case 0
  then show ?case by (auto intro: exI [of _ 0] simp: after_0 shape_def)
next
  case (Suc r)
  from Suc.prems(2) obtain row s1 rows where e: "randn_row c rand s = Some (row, s1)"
    and r: "randn r c rand s1 = Some (rows, s')" and M: "M = row # rows"
    by (auto split: option.splits)
  from randn_row_Some [OF Suc.prems(1) e] obtain k where row: "length row = c"
      "\<forall>z\<in>set row. from_draws rand s z" and k: "s1 = after rand k s"
    by blast
  have u1: "uniform_source rand s1" unfolding k by (rule uniform_after [OF Suc.prems(1)])
  from Suc.IH [OF u1 r] obtain k' where rows: "shape rows r c"
      "\<forall>row\<in>set rows. \<forall>z\<in>set row. from_draws rand s1 z"
    and k': "s' = after rand k' s1" by blast
  have "\<forall>row\<in>set rows. \<forall>z\<in>set row. from_draws rand s z"
    using rows(2) unfolding k by (blast intro: from_draws_after)
  moreover have "s' = after rand (k' + k) s" unfolding k' k by (simp only: after_add)
  ultimately show ?case using row rows(1) M by (auto simp: shape_def)
qed

lemma after_alternating: "after alternating k s = s + k"
  by (induction k arbitrary: s) (simp_all add: after_0 after_Suc alternating_def)

lemma nth_value_alternating: "nth_value alternating 0 k = (if even k then 0 else 1 / 2)"
  by (simp add: nth_value_def after_alternating alternating_def)

text \<open>
  Claim C9. For a random source with values in \<open>[0, 1)\<close>: whenever \<open>randn(r, c, rand)\<close>
  returns, the matrix has \<open>r\<close> rows of \<open>c\<close> entries and every entry is a finite number,
  \<open>0.1\<close> times the Box-Muller value of two values returned by the source that are both
  nonzero, so the logarithm never receives \<open>0\<close>; and \<open>randn\<close> does return when the
  source returns a nonzero value again after every point (each entry needs two).
\<close>

theorem randn_finite:
  assumes "uniform_source rand s"
  shows "(\<forall>M s'. randn r c rand s = Some (M, s') \<longrightarrow>
            shape M r c \<and> (\<forall>row\<in>set M. \<forall>z\<in>set row. from_draws rand s z)) \<and>
         (nonzero_again rand s \<longrightarrow> (\<exists>M s'. randn r c rand s = Some (M, s')))"
proof (intro conjI allI impI)
  fix M s' assume "randn r c rand s = Some (M, s')"
  from randn_Some [OF assms this]
  show "shape M r c" and "\<forall>row\<in>set M. \<forall>z\<in>set row. from_draws rand s z" by blast+
next
  assume "nonzero_again rand s"
  from randn_returns [OF assms this, of r c]
  show "\<exists>M s'. randn r c rand s = Some (M, s')" by blast
qed

theorem randn_finite_witness:
  "uniform_source alternating 0 \<and> nonzero_again alternating 0 \<and>
   (\<exists>M s'. randn 2 3 alternating 0 = Some (M, s') \<and> shape M 2 3 \<and>
      (\<forall>row\<in>set M. \<forall>z\<in>set row. from_draws alternating 0 z))"
proof -
  have u: "uniform_source alternating 0"
    by (simp add: uniform_source_def nth_value_alternating)
  have n: "nonzero_again alternating 0"
    unfolding nonzero_again_def nth_value_alternating
  proof
    fix k :: nat
    show "\<exists>j\<ge>k. (if even j then 0 else 1 / 2) \<noteq> (0 :: real)"
      by (rule exI [of _ "Suc (2 * k)"]) simp
  qed
  show ?thesis using randn_finite [OF u, of 2 3] u n by blast
qed

section \<open>The generator seeded with 42\<close>

lemma xor_push_inj:
  fixes x y :: "32 word"
  assumes k: "0 < k" and e: "x XOR push_bit k x = y XOR push_bit k y"
  shows "x = y"
proof (rule bit_word_eqI)
  fix n assume "n < LENGTH(32)"
  have b: "bit (z XOR push_bit k z) m = (bit z m \<noteq> (k \<le> m \<and> bit z (m - k)))" if "m < 32" for m and z :: "32 word"
    using that by (auto simp: bit_xor_iff bit_push_bit_iff)
  have "m < 32 \<Longrightarrow> bit x m = bit y m" for m
  proof (induction m rule: less_induct)
    case (less m)
    have "bit (x XOR push_bit k x) m = bit (y XOR push_bit k y) m" using e by simp
    then have *: "(bit x m \<noteq> (k \<le> m \<and> bit x (m - k))) = (bit y m \<noteq> (k \<le> m \<and> bit y (m - k)))"
      using b [OF less.prems] by simp
    show ?case
    proof (cases "k \<le> m")
      case True
      then have "bit x (m - k) = bit y (m - k)" using less.IH [of "m - k"] less.prems k by simp
      with * show ?thesis by auto
    next
      case False
      with * show ?thesis by auto
    qed
  qed
  then show "bit x n = bit y n" using \<open>n < LENGTH(32)\<close> by simp
qed

lemma xor_drop_inj:
  fixes x y :: "32 word"
  assumes k: "0 < k" and e: "x XOR drop_bit k x = y XOR drop_bit k y"
  shows "x = y"
proof (rule bit_word_eqI)
  fix n assume n: "n < LENGTH(32)"
  have b: "bit (z XOR drop_bit k z) m = (bit z m \<noteq> bit z (m + k))" for m and z :: "32 word"
    by (auto simp: bit_xor_iff bit_drop_bit_eq add.commute)
  have "d \<le> 32 \<Longrightarrow> bit x (32 - d) = bit y (32 - d)" for d
  proof (induction d rule: less_induct)
    case (less d)
    have "bit (x XOR drop_bit k x) (32 - d) = bit (y XOR drop_bit k y) (32 - d)" using e by simp
    then have *: "(bit x (32 - d) \<noteq> bit x (32 - d + k)) = (bit y (32 - d) \<noteq> bit y (32 - d + k))"
      using b by simp
    show ?case
    proof (cases "32 - d + k < 32")
      case True
      then have "32 - d + k = 32 - (d - k)" "d - k < d" "d - k \<le> 32" using k less.prems by arith+
      then have "bit x (32 - d + k) = bit y (32 - d + k)" using less.IH [of "d - k"] by simp
      with * show ?thesis by auto
    next
      case False
      then have "\<not> bit x (32 - d + k)" "\<not> bit y (32 - d + k)"
        by (auto dest: bit_imp_le_length)
      with * show ?thesis by auto
    qed
  qed
  from this [of "32 - n"] n show "bit x n = bit y n" by simp
qed

lemma inj_rng_step: "inj rng_step"
proof (rule injI)
  fix x y assume "rng_step x = rng_step y"
  then have "(x XOR push_bit 13 x) XOR drop_bit 17 (x XOR push_bit 13 x)
           = (y XOR push_bit 13 y) XOR drop_bit 17 (y XOR push_bit 13 y)"
    unfolding rng_step_def Let_def by (rule xor_push_inj [rotated]) simp
  then have "x XOR push_bit 13 x = y XOR push_bit 13 y"
    by (rule xor_drop_inj [rotated]) simp
  then show "x = y"
    by (rule xor_push_inj [rotated]) simp
qed

lemma funpow_returns:
  fixes f :: "'a::finite \<Rightarrow> 'a"
  assumes "inj f"
  shows "\<exists>p>0. (f ^^ p) x = x"
proof -
  have "\<not> inj (\<lambda>n. (f ^^ n) x)"
  proof
    assume "inj (\<lambda>n. (f ^^ n) x)"
    then have "finite (UNIV :: nat set)"
      by (rule finite_imageD [rotated]) simp
    then show False by simp
  qed
  then obtain i j where ij: "(f ^^ i) x = (f ^^ j) x" "i \<noteq> j"
    by (auto simp: inj_on_def)
  have *: "(f ^^ (b - a)) x = x" if "a < b" "(f ^^ a) x = (f ^^ b) x" for a b
  proof -
    have "(f ^^ a) x = (f ^^ a) ((f ^^ (b - a)) x)"
      using that by (simp add: funpow_add [symmetric, unfolded comp_def, THEN fun_cong] flip: funpow_add)
    then show ?thesis using inj_fn [OF assms, of a] by (simp add: inj_def)
  qed
  show ?thesis
  proof (cases "i < j")
    case True
    with * [of i j] ij show ?thesis by (intro exI [of _ "j - i"]) simp
  next
    case False
    then have "j < i" using ij by simp
    with * [of j i] ij show ?thesis by (intro exI [of _ "i - j"]) simp
  qed
qed

lemma funpow_period: "(f ^^ p) x = x \<Longrightarrow> (f ^^ (p * m)) x = x"
  by (induction m) (simp_all add: funpow_add)

lemma after_rng: "after rng_rand k s = (rng_step ^^ k) s"
proof -
  have "(\<lambda>t. snd (rng_rand t)) = rng_step" by (simp add: rng_rand_def Let_def fun_eq_iff)
  then show ?thesis by (simp add: after_def)
qed

lemma uniform_rng: "uniform_source rng_rand s"
  by (simp add: uniform_source_def nth_value_def rng_rand_def Let_def)

lemma nonzero_rng: "nonzero_again rng_rand (rng 42)"
  unfolding nonzero_again_def
proof
  fix k
  obtain p where p: "0 < p" "(rng_step ^^ p) (rng 42) = rng 42"
    using funpow_returns [OF inj_rng_step] by blast
  let ?j = "p * Suc k - 1"
  have "1 * Suc k \<le> p * Suc k" using p(1) by (intro mult_le_mono1) simp
  then have "Suc k \<le> p * Suc k" by (simp only: mult_1)
  then obtain q where q: "p * Suc k = Suc q" "k \<le> q" by (cases "p * Suc k") auto
  have j: "Suc ?j = p * Suc k" "k \<le> ?j" unfolding q(1) using q(2) by simp_all
  have "after rng_rand (Suc ?j) (rng 42) = rng 42"
    unfolding after_rng j(1) by (rule funpow_period [OF p(2)])
  then have "rng_step (after rng_rand ?j (rng 42)) = rng 42"
    by (simp add: after_rng)
  then have "nth_value rng_rand (rng 42) ?j = 42 / 1000000"
    by (simp add: nth_value_def rng_rand_def Let_def rng_def)
  then show "\<exists>j\<ge>k. nth_value rng_rand (rng 42) j \<noteq> 0"
    using j(2) by (intro exI [of _ ?j]) simp
qed

section \<open>Building the network\<close>

lemma randn_rng:
  "\<exists>w s'. randn r c rng_rand (rng 42) = Some (w, s') \<and> shape w r c"
  using randn_returns [OF uniform_rng nonzero_rng, of r c] by blast

lemma build_layers_returns:
  "\<exists>ds n. build_layers k items = Some (ds, n) \<and>
     (\<forall>L\<in>set ds. \<exists>w s'. randn (l_in L) (l_out L) rng_rand (rng 42) = Some (w, s') \<and>
        l_W L = Some w \<and> l_b L = (if l_useBias L then Some (zeros 1 (l_out L)) else None))"
proof (induction items arbitrary: k)
  case Nil
  show ?case by simp
next
  case (Cons a items)
  show ?case
  proof (cases "a_type a = ''input''")
    case True
    then show ?thesis using Cons.IH [of "a_neurons a"] by simp
  next
    case False
    obtain w s' where w: "randn k (a_neurons a) rng_rand (rng 42) = Some (w, s')"
      using randn_rng by blast
    obtain ds n where ds: "build_layers (a_neurons a) items = Some (ds, n)"
      "\<forall>L\<in>set ds. \<exists>w s'. randn (l_in L) (l_out L) rng_rand (rng 42) = Some (w, s') \<and>
        l_W L = Some w \<and> l_b L = (if l_useBias L then Some (zeros 1 (l_out L)) else None)"
      using Cons.IH [of "a_neurons a"] by blast
    show ?thesis
      using False w ds by (simp add: new_DenseLayer_def Let_def)
  qed
qed

lemma example_build:
  assumes w: "randn 2 2 rng_rand (rng 42) = Some (w, s')"
  shows "build_layers (inputSize example_state) (arch example_state) =
    Some ([\<lparr>l_in = 2, l_out = 2, l_activation = ''tanh'', l_useBias = True,
                 l_W = Some w, l_b = Some (zeros 1 2),
                 l_X = None, l_Z = None, l_A = None\<rparr>,
           \<lparr>l_in = 2, l_out = 2, l_activation = ''sigmoid'', l_useBias = True,
                 l_W = Some w, l_b = Some (zeros 1 2),
                 l_X = None, l_Z = None, l_A = None\<rparr>], 2)"
  by (simp add: example_state_def new_DenseLayer_def w)

text \<open>
  Claim C10. \<open>buildNetwork\<close> always returns, and every layer it creates takes its weights
  from a fresh generator seeded with \<open>42\<close>: the weights of a layer are \<open>randn\<close> of its
  widths on \<open>rng(42)\<close>. So two builds from equal architecture lists and equal declared
  input sizes give layers with identical weight matrices and bias rows, and any two layers
  of equal input and output width, of one build or of two, have identical initial weights.
\<close>

theorem buildNetwork_deterministic:
  "\<exists>st1' st2'. buildNetwork st1 = Some st1' \<and> buildNetwork st2 = Some st2' \<and>
     (arch st1 = arch st2 \<and> inputSize st1 = inputSize st2 \<longrightarrow>
        map l_W (net st1') = map l_W (net st2') \<and> map l_b (net st1') = map l_b (net st2')) \<and>
     (\<forall>L1\<in>set (net st1'). \<forall>L2\<in>set (net st2').
        l_in L1 = l_in L2 \<and> l_out L1 = l_out L2 \<longrightarrow> l_W L1 = l_W L2) \<and>
     (\<forall>L\<in>set (net st1'). \<exists>w s. randn (l_in L) (l_out L) rng_rand (rng 42) = Some (w, s) \<and>
        l_W L = Some w)"
proof -
  obtain ds1 n1 where b1: "build_layers (inputSize st1) (arch st1) = Some (ds1, n1)"
    and w1: "\<forall>L\<in>set ds1. \<exists>w s'. randn (l_in L) (l_out L) rng_rand (rng 42) = Some (w, s') \<and>
        l_W L = Some w \<and> l_b L = (if l_useBias L then Some (zeros 1 (l_out L)) else None)"
    using build_layers_returns by blast
  obtain ds2 n2 where b2: "build_layers (inputSize st2) (arch st2) = Some (ds2, n2)"
    and w2: "\<forall>L\<in>set ds2. \<exists>w s'. randn (l_in L) (l_out L) rng_rand (rng 42) = Some (w, s') \<and>
        l_W L = Some w \<and> l_b L = (if l_useBias L then Some (zeros 1 (l_out L)) else None)"
    using build_layers_returns by blast
  have r1: "buildNetwork st1 = Some (st1\<lparr>net := ds1, outputSize := n1\<rparr>)"
    and r2: "buildNetwork st2 = Some (st2\<lparr>net := ds2, outputSize := n2\<rparr>)"
    by (simp_all add: buildNetwork_def b1 b2)
  have same: "ds1 = ds2" if "arch st1 = arch st2 \<and> inputSize st1 = inputSize st2"
  proof -
    have "build_layers (inputSize st1) (arch st1) = build_layers (inputSize st2) (arch st2)"
      using that by simp
    then show ?thesis unfolding b1 b2 by simp
  qed
  have pair: "l_W L1 = l_W L2"
    if L1: "L1 \<in> set ds1" and L2: "L2 \<in> set ds2" and d: "l_in L1 = l_in L2 \<and> l_out L1 = l_out L2"
    for L1 L2
  proof -
    obtain u s where u: "randn (l_in L1) (l_out L1) rng_rand (rng 42) = Some (u, s)" "l_W L1 = Some u"
      using w1 L1 by blast
    obtain v t where v: "randn (l_in L2) (l_out L2) rng_rand (rng 42) = Some (v, t)" "l_W L2 = Some v"
      using w2 L2 by blast
    from u(1) v(1) d have "u = v" by simp
    then show ?thesis using u(2) v(2) by simp
  qed
  have from_rng: "\<exists>w s. randn (l_in L) (l_out L) rng_rand (rng 42) = Some (w, s) \<and> l_W L = Some w"
    if "L \<in> set ds1" for L
    using w1 that by blast
  let ?a = "st1\<lparr>net := ds1, outputSize := n1\<rparr>" and ?b = "st2\<lparr>net := ds2, outputSize := n2\<rparr>"
  have n: "net ?a = ds1" "net ?b = ds2" by simp_all
  have "buildNetwork st1 = Some ?a \<and> buildNetwork st2 = Some ?b \<and>
     (arch st1 = arch st2 \<and> inputSize st1 = inputSize st2 \<longrightarrow>
        map l_W (net ?a) = map l_W (net ?b) \<and> map l_b (net ?a) = map l_b (net ?b)) \<and>
     (\<forall>L1\<in>set (net ?a). \<forall>L2\<in>set (net ?b).
        l_in L1 = l_in L2 \<and> l_out L1 = l_out L2 \<longrightarrow> l_W L1 = l_W L2) \<and>
     (\<forall>L\<in>set (net ?a). \<exists>w s. randn (l_in L) (l_out L) rng_rand (rng 42) = Some (w, s) \<and>
        l_W L = Some w)"
    unfolding n using r1 r2 same pair from_rng by blast
  then show ?thesis by blast
qed

theorem buildNetwork_deterministic_witness:
  "\<exists>st'. buildNetwork example_state = Some st' \<and>
     map l_in (net st') = [2, 2] \<and> map l_out (net st') = [2, 2] \<and>
     l_W (net st' ! 0) = l_W (net st' ! 1)"
proof -
  obtain w s' where w: "randn 2 2 rng_rand (rng 42) = Some (w, s')"
    using randn_rng by blast
  let ?L1 = "\<lparr>l_in = 2, l_out = 2, l_activation = ''tanh'', l_useBias = True,
                 l_W = Some w, l_b = Some (zeros 1 2),
                 l_X = None, l_Z = None, l_A = None\<rparr>"
  let ?L2 = "\<lparr>l_in = 2, l_out = 2, l_activation = ''sigmoid'', l_useBias = True,
                 l_W = Some w, l_b = Some (zeros 1 2),
                 l_X = None, l_Z = None, l_A = None\<rparr>"
  let ?st = "example_state\<lparr>net := [?L1, ?L2], outputSize := 2\<rparr>"
  have r: "buildNetwork example_state = Some ?st"
    unfolding buildNetwork_def example_build [OF w] by simp
  obtain st1 st2 where st: "buildNetwork example_state = Some st1" "buildNetwork example_state = Some st2"
    and eq: "\<forall>L1\<in>set (net st1). \<forall>L2\<in>set (net st2).
        l_in L1 = l_in L2 \<and> l_out L1 = l_out L2 \<longrightarrow> l_W L1 = l_W L2"
    using buildNetwork_deterministic [of example_state example_state] by blast
  have "st1 = ?st" "st2 = ?st" using st unfolding r by simp_all
  then have n: "net st1 = [?L1, ?L2]" "net st2 = [?L1, ?L2]" by simp_all
  have "l_W ?L1 = l_W ?L2"
    using eq [unfolded n, rule_format, of ?L1 ?L2] by simp
  then have c: "map l_in (net ?st) = [2, 2] \<and> map l_out (net ?st) = [2, 2] \<and>
     l_W (net ?st ! 0) = l_W (net ?st ! 1)" by simp
  show ?thesis
    by (rule exI [of _ ?st], rule conjI [OF r c])
qed

section \<open>Loading a CSV dataset\<close>

lemma buildNetwork_returns:
  "\<exists>ds n. buildNetwork st = Some (st\<lparr>net := ds, outputSize := n\<rparr>)"
proof -
  obtain ds n where "build_layers (inputSize st) (arch st) = Some (ds, n)"
    using build_layers_returns by blast
  then show ?thesis unfolding buildNetwork_def by (intro exI [of _ ds] exI [of _ n]) simp
qed

lemma ensureIOInArch_returns:
  "\<exists>a ds n. ensureIOInArch st = Some (st\<lparr>arch := a, net := ds, outputSize := n\<rparr>)"
proof -
  obtain a where a: "ensureIOInArch st = buildNetwork (st\<lparr>arch := a\<rparr>)"
    by (simp add: ensureIOInArch_def Let_def)
  obtain ds n where "buildNetwork (st\<lparr>arch := a\<rparr>) = Some (st\<lparr>arch := a, net := ds, outputSize := n\<rparr>)"
    using buildNetwork_returns [of "st\<lparr>arch := a\<rparr>"] by auto
  with a show ?thesis by (intro exI) simp
qed

lemma handleCSVFile_effect:
  assumes "csv_data Number csv \<noteq> []"
  shows "\<exists>st'. handleCSVFile Number csv st = Some (Inr st') \<and>
           inputSize st' = length (hd (csv_data Number csv)) - 1 \<and>
           dataset_X st' = map (take (length (hd (csv_data Number csv)) - 1)) (csv_data Number csv) \<and>
           dataset_y st' = map (\<lambda>r. [num_at r (length (hd (csv_data Number csv)) - 1)])
                              (csv_data Number csv)"
proof -
  let ?data = "csv_data Number csv"
  let ?st1 = "st\<lparr>inputSize := length (hd ?data) - 1, outputSize := 1,
                    dataset_X := map (take (length (hd ?data) - 1)) ?data,
                    dataset_y := map (\<lambda>r. [num_at r (length (hd ?data) - 1)]) ?data\<rparr>"
  obtain a ds n where e: "ensureIOInArch ?st1 = Some (?st1\<lparr>arch := a, net := ds, outputSize := n\<rparr>)"
    using ensureIOInArch_returns by blast
  have "handleCSVFile Number csv st = Some (Inr (?st1\<lparr>arch := a, net := ds, outputSize := n\<rparr>))"
    using assms e by (simp add: handleCSVFile_def Let_def)
  then show ?thesis by (intro exI [of _ "?st1\<lparr>arch := a, net := ds, outputSize := n\<rparr>"]) simp
qed

lemma csv_data_ragged:
  "csv_data bit_Number ragged_text = [[Some 1, Some 0, Some 1, Some 1], [Some 0, Some 1]]"
  by (simp add: csv_data_def csv_lines_def ragged_text_def trim_def is_space_def is_alpha_def
      bit_Number_def)


lemma ensureIOInArch_arch:
  "ensureIOInArch st =
     buildNetwork (st\<lparr>arch := arch_with_io (inputSize st) (outputSize st) (arch st)\<rparr>)"
  by (simp add: ensureIOInArch_def arch_with_io_def Let_def)

lemma build_layers_checked_eq:
  assumes "k < 2 ^ 32" and "\<forall>l\<in>set items. a_neurons l < 2 ^ 32"
  shows "build_layers_checked k items = map_option Inr (build_layers k items)"
  using assms
proof (induction items arbitrary: k)
  case Nil
  show ?case by simp
next
  case (Cons a items)
  have ih: "build_layers_checked (a_neurons a) items = map_option Inr (build_layers (a_neurons a) items)"
    using Cons.IH [of "a_neurons a"] Cons.prems by simp
  have ok: "\<not> constructor_fails k (a_neurons a) u" for u
    using Cons.prems by (simp add: constructor_fails_def zeros_fails_def)
  show ?case
    by (simp add: ih ok Let_def split: option.splits)
qed

lemma update_first_all:
  assumes "\<forall>x\<in>set xs. P x" and "\<And>x. P x \<Longrightarrow> P (f x)"
  shows "\<forall>x\<in>set (update_first p f xs). P x"
  using assms(1) by (induction xs) (auto simp: assms(2))

lemma arch_with_io_widths:
  assumes "i < 2 ^ 32" and "n < 2 ^ 32" and "\<forall>l\<in>set items. a_neurons l < (2 ^ 32 :: nat)"
  shows "\<forall>l\<in>set (arch_with_io i n items). a_neurons l < (2 ^ 32 :: nat)"
proof -
  let ?P = "\<lambda>l. a_neurons l < (2 ^ 32 :: nat)"
  let ?f = "\<lambda>l. l\<lparr>a_neurons := n,
                        a_activation :=
                          (if a_activation l = None \<or> a_activation l = Some []
                           then Some ''sigmoid'' else a_activation l)\<rparr>"
  let ?a1 = "if list_ex (\<lambda>l. a_type l = ''input'') items
             then update_first (\<lambda>l. a_type l = ''input'') (\<lambda>l. l\<lparr>a_neurons := i\<rparr>) items
             else \<lparr>a_type = ''input'', a_neurons = i, a_activation = None, a_bias = None\<rparr> # items"
  have u: "\<forall>l\<in>set (update_first (\<lambda>l. a_type l = ''input'') (\<lambda>l. l\<lparr>a_neurons := i\<rparr>) items). ?P l"
    by (rule update_first_all [OF assms(3)]) (use assms(1) in simp)
  have a1: "\<forall>l\<in>set ?a1. ?P l"
    using u assms(1,3) by simp
  have a2: "\<forall>l\<in>set (update_first (\<lambda>l. a_type l = ''output'') ?f ?a1). ?P l"
    by (rule update_first_all [OF a1]) (use assms(2) in simp)
  have e: "arch_with_io i n items =
      (if list_ex (\<lambda>l. a_type l = ''output'') ?a1
       then update_first (\<lambda>l. a_type l = ''output'') ?f ?a1
       else ?a1 @ [\<lparr>a_type = ''output'', a_neurons = n, a_activation = Some ''sigmoid'', a_bias = Some True\<rparr>])"
    by (simp add: arch_with_io_def Let_def)
  show ?thesis
    unfolding e using a1 a2 assms(2) by (simp del: set_simps split del: if_split) (auto simp del: update_first.simps)
qed

lemma update_first_no_input:
  assumes "\<forall>l\<in>set xs. a_type l \<noteq> ''input''" and "\<And>l. a_type (f l) = a_type l"
  shows "\<forall>l\<in>set (update_first p f xs). a_type l \<noteq> ''input''"
  using assms(1) by (induction xs) (auto simp: assms(2))

lemma update_first_Cons_other: "\<not> p x \<Longrightarrow> update_first p f (x # xs) = x # update_first p f xs"
  by simp

lemma arch_with_io_head:
  assumes "\<forall>l\<in>set (tl items). a_type l \<noteq> ''input''"
  shows "\<exists>inL rest. arch_with_io i n items = inL # rest \<and> a_type inL = ''input'' \<and>
           a_neurons inL = i \<and> (\<forall>l\<in>set rest. a_type l \<noteq> ''input'')"
proof -
  let ?is_in = "\<lambda>l. a_type l = ''input''"
  let ?is_out = "\<lambda>l. a_type l = ''output''"
  let ?f = "\<lambda>l. l\<lparr>a_neurons := n,
                        a_activation :=
                          (if a_activation l = None \<or> a_activation l = Some []
                           then Some ''sigmoid'' else a_activation l)\<rparr>"
  let ?o = "\<lparr>a_type = ''output'', a_neurons = n, a_activation = Some ''sigmoid'', a_bias = Some True\<rparr>"
  let ?a1 = "if list_ex ?is_in items
             then update_first ?is_in (\<lambda>l. l\<lparr>a_neurons := i\<rparr>) items
             else \<lparr>a_type = ''input'', a_neurons = i, a_activation = None, a_bias = None\<rparr> # items"
  have "\<exists>inL rest. ?a1 = inL # rest \<and> a_type inL = ''input'' \<and>
           a_neurons inL = i \<and> (\<forall>l\<in>set rest. a_type l \<noteq> ''input'')"
  proof (cases items)
    case Nil
    then show ?thesis by simp
  next
    case (Cons x xs)
    then show ?thesis using assms by (cases "a_type x = ''input''") (auto simp: list_ex_iff)
  qed
  then obtain inL rest where a1: "?a1 = inL # rest" "a_type inL = ''input''" "a_neurons inL = i"
     "\<forall>l\<in>set rest. a_type l \<noteq> ''input''" by blast
  have no: "\<not> ?is_out inL" using a1(2) by simp
  have r: "\<forall>l\<in>set (update_first ?is_out ?f rest). a_type l \<noteq> ''input''"
    by (rule update_first_no_input [OF a1(4)]) simp
  have e: "arch_with_io i n items =
      (if list_ex ?is_out ?a1 then update_first ?is_out ?f ?a1 else ?a1 @ [?o])"
    by (simp add: arch_with_io_def Let_def)
  show ?thesis
    unfolding e a1(1) using a1(2,3,4) r no by (simp del: update_first.simps add: update_first_Cons_other)
qed


lemma build_layers_edges:
  assumes "\<forall>l\<in>set items. a_type l \<noteq> ''input''" and "build_layers k items = Some (ds, n)"
    and "before + k + sum_list (map a_neurons items) \<le> nodes"
  shows "\<not> edges_throw before k nodes ds \<and> \<not> list_ex (\<lambda>L. l_W L = None) ds \<and>
         map l_out ds = map a_neurons items"
  using assms
proof (induction items arbitrary: k before ds)
  case Nil
  then show ?case by simp
next
  case (Cons a items)
  let ?actv = "case a_activation a of None \<Rightarrow> ''relu'' | Some x \<Rightarrow> if x = [] then ''relu'' else x"
  let ?u = "a_bias a \<noteq> Some False"
  have t: "a_type a \<noteq> ''input''" using Cons.prems(1) by simp
  obtain w s' where w: "randn k (a_neurons a) rng_rand (rng 42) = Some (w, s')"
      "shape w k (a_neurons a)"
    using randn_rng by blast
  let ?d = "\<lparr>l_in = k, l_out = a_neurons a, l_activation = ?actv, l_useBias = ?u,
                 l_W = Some w, l_b = (if ?u then Some (zeros 1 (a_neurons a)) else None),
                 l_X = None, l_Z = None, l_A = None\<rparr>"
  have d: "new_DenseLayer k (a_neurons a) ?actv ?u rng_rand (rng 42) = Some (?d, s')"
    by (simp add: new_DenseLayer_def w(1))
  obtain ds' where r: "build_layers (a_neurons a) items = Some (ds', n)" and ds: "ds = ?d # ds'"
    using Cons.prems(2) t d by (auto simp: Let_def split: option.splits)
  have ih: "\<not> edges_throw (before + k) (a_neurons a) nodes ds' \<and>
      \<not> list_ex (\<lambda>L. l_W L = None) ds' \<and> map l_out ds' = map a_neurons items"
    using Cons.IH [OF _ r, of "before + k"] Cons.prems(1,3) by simp
  have h: "w \<noteq> [] \<Longrightarrow> length (hd w) = a_neurons a" using w(2) by (simp add: shape_def)
  have l: "length w = k" using w(2) by (simp add: shape_def)
  show ?case unfolding ds using ih h l Cons.prems(3) by auto
qed

text \<open>
  Claim C7, as the code has it. \<open>handleCSVFile\<close> compares no column counts and reports no
  format error. For every text in which some row of data has another number of cells than
  the first, loaded while the widths of the architecture list are array lengths (below
  \<open>2\<^sup>3\<^sup>2\<close>, as is the first row's number of cells) and no entry of the list after the
  first is of type \<open>input\<close>, it succeeds: the declared input size becomes the first row's
  count minus one, the features of a row are its cells before that index (fewer when the
  row is shorter), its target is the cell at that index (\<open>undefined\<close> when the row is
  shorter), and the dataset is replaced; the architecture list is fitted to this input
  size and to one output, the network is replaced by the one built from that list, no
  constructor and no drawing of it throwing, and the declared output size becomes its
  last width.
\<close>

theorem handleCSVFile_no_validation:
  assumes "\<exists>row\<in>set (csv_data Number csv). length row \<noteq> length (hd (csv_data Number csv))"
    and "\<forall>l\<in>set (arch st). a_neurons l < 2 ^ 32"
    and "length (hd (csv_data Number csv)) \<le> 2 ^ 32"
    and "\<forall>l\<in>set (tl (arch st)). a_type l \<noteq> ''input''"
  shows "\<exists>ds n.
      handleCSVFile Number csv st =
        Some (Inr (st\<lparr>inputSize := length (hd (csv_data Number csv)) - 1,
                      outputSize := n,
                      dataset_X := map (take (length (hd (csv_data Number csv)) - 1)) (csv_data Number csv),
                      dataset_y := map (\<lambda>r. [num_at r (length (hd (csv_data Number csv)) - 1)])
                                     (csv_data Number csv),
                      arch := arch_with_io (length (hd (csv_data Number csv)) - 1) 1 (arch st),
                      net := ds\<rparr>)) \<and>
      build_layers_checked (length (hd (csv_data Number csv)) - 1)
        (arch_with_io (length (hd (csv_data Number csv)) - 1) 1 (arch st)) = Some (Inr (ds, n)) \<and>
      \<not> renderNNVis_throws nnVis
        (st\<lparr>inputSize := length (hd (csv_data Number csv)) - 1,
            outputSize := n,
            dataset_X := map (take (length (hd (csv_data Number csv)) - 1)) (csv_data Number csv),
            dataset_y := map (\<lambda>r. [num_at r (length (hd (csv_data Number csv)) - 1)])
                           (csv_data Number csv),
            arch := arch_with_io (length (hd (csv_data Number csv)) - 1) 1 (arch st),
            net := ds\<rparr>)"
proof -
  let ?data = "csv_data Number csv"
  have ne: "?data \<noteq> []" using assms(1) by auto
  let ?i = "length (hd ?data) - 1"
  let ?a = "arch_with_io ?i 1 (arch st)"
  let ?st1 = "st\<lparr>inputSize := ?i, outputSize := 1,
                    dataset_X := map (take ?i) ?data,
                    dataset_y := map (\<lambda>r. [num_at r ?i]) ?data\<rparr>"
  have i: "?i < 2 ^ 32"
  proof -
    have "0 < length (hd ?data) \<Longrightarrow> ?i < length (hd ?data)" by simp
    then show ?thesis using assms(3) by (cases "length (hd ?data)") simp_all
  qed
  obtain ds n where b: "build_layers ?i ?a = Some (ds, n)"
    using build_layers_returns by blast
  have w: "\<forall>l\<in>set ?a. a_neurons l < 2 ^ 32"
    by (rule arch_with_io_widths [OF i _ assms(2)]) simp
  have c: "build_layers_checked ?i ?a = Some (Inr (ds, n))"
    unfolding build_layers_checked_eq [OF i w] b by simp
  have e: "ensureIOInArch ?st1 = Some (?st1\<lparr>arch := ?a, net := ds, outputSize := n\<rparr>)"
    unfolding ensureIOInArch_arch using b by (simp add: buildNetwork_def)
  have r: "handleCSVFile Number csv st = Some (Inr (?st1\<lparr>arch := ?a, net := ds, outputSize := n\<rparr>))"
    using ne e by (simp add: handleCSVFile_def Let_def)
  obtain inL rest where a: "?a = inL # rest" "a_type inL = ''input''" "a_neurons inL = ?i"
      "\<forall>l\<in>set rest. a_type l \<noteq> ''input''"
    using arch_with_io_head [OF assms(4), of ?i 1] by blast
  have b': "build_layers ?i rest = Some (ds, n)"
    using b unfolding a(1) by (simp add: a(2,3))
  have ed: "\<not> edges_throw 0 ?i (?i + sum_list (map l_out ds)) ds \<and>
      \<not> list_ex (\<lambda>L. l_W L = None) ds"
    using build_layers_edges [OF a(4) b', of 0 "?i + sum_list (map a_neurons rest)"] by simp
  have t: "\<not> renderNNVis_throws nnVis (?st1\<lparr>arch := ?a, net := ds, outputSize := n\<rparr>)"
    using ed by (simp add: renderNNVis_throws_def)
  have eq: "?st1\<lparr>arch := ?a, net := ds, outputSize := n\<rparr> =
      st\<lparr>inputSize := ?i, outputSize := n, dataset_X := map (take ?i) ?data,
         dataset_y := map (\<lambda>r. [num_at r ?i]) ?data, arch := ?a, net := ds\<rparr>"
    by (cases st) simp
  show ?thesis
    apply (rule exI [of _ ds], rule exI [of _ n])
    using r c t unfolding eq by (intro conjI)
qed

theorem handleCSVFile_no_validation_witness:
  "(\<exists>row\<in>set (csv_data bit_Number ragged_text).
      length row \<noteq> length (hd (csv_data bit_Number ragged_text))) \<and>
   map a_neurons (arch example_state) = [2, 2, 2] \<and>
   length (hd (csv_data bit_Number ragged_text)) = 4 \<and>
   map a_type (arch example_state) = [''input'', ''hidden'', ''output''] \<and>
   (\<exists>ds n.
      handleCSVFile bit_Number ragged_text example_state =
        Some (Inr (example_state\<lparr>inputSize := 3, outputSize := n,
                      dataset_X := [[Some 1, Some 0, Some 1], [Some 0, Some 1]],
                      dataset_y := [[Some 1], [None]],
                      arch := [\<lparr>a_type = ''input'', a_neurons = 3, a_activation = None, a_bias = None\<rparr>,
                               \<lparr>a_type = ''hidden'', a_neurons = 2, a_activation = Some ''tanh'', a_bias = Some True\<rparr>,
                               \<lparr>a_type = ''output'', a_neurons = 1, a_activation = Some ''sigmoid'', a_bias = Some True\<rparr>],
                      net := ds\<rparr>)) \<and>
      length ds = 2)"
proof -
  have h: "\<exists>row\<in>set (csv_data bit_Number ragged_text).
      length row \<noteq> length (hd (csv_data bit_Number ragged_text))"
    "\<forall>l\<in>set (arch example_state). a_neurons l < 2 ^ 32"
    "length (hd (csv_data bit_Number ragged_text)) \<le> 2 ^ 32"
    "\<forall>l\<in>set (tl (arch example_state)). a_type l \<noteq> ''input''"
    by (simp_all add: csv_data_ragged example_state_def)
  have a: "arch_with_io 3 1 (arch example_state) =
      [\<lparr>a_type = ''input'', a_neurons = 3, a_activation = None, a_bias = None\<rparr>,
       \<lparr>a_type = ''hidden'', a_neurons = 2, a_activation = Some ''tanh'', a_bias = Some True\<rparr>,
       \<lparr>a_type = ''output'', a_neurons = 1, a_activation = Some ''sigmoid'', a_bias = Some True\<rparr>]"
    by (simp add: arch_with_io_def example_state_def)
  have l: "length (hd (csv_data bit_Number ragged_text)) - 1 = 3"
    by (simp add: csv_data_ragged)
  obtain ds n where r: "handleCSVFile bit_Number ragged_text example_state =
        Some (Inr (example_state\<lparr>inputSize := 3, outputSize := n,
                      dataset_X := map (take 3) (csv_data bit_Number ragged_text),
                      dataset_y := map (\<lambda>r. [num_at r 3]) (csv_data bit_Number ragged_text),
                      arch := arch_with_io 3 1 (arch example_state),
                      net := ds\<rparr>))"
    and c: "build_layers_checked 3 (arch_with_io 3 1 (arch example_state)) = Some (Inr (ds, n))"
    using handleCSVFile_no_validation [OF h, of True] unfolding l by blast
  have n: "length ds = 2"
    using c unfolding a by (auto simp: Let_def split: if_splits option.splits sum.splits)
  have r': "handleCSVFile bit_Number ragged_text example_state =
        Some (Inr (example_state\<lparr>inputSize := 3, outputSize := n,
                      dataset_X := [[Some 1, Some 0, Some 1], [Some 0, Some 1]],
                      dataset_y := [[Some 1], [None]],
                      arch := [\<lparr>a_type = ''input'', a_neurons = 3, a_activation = None, a_bias = None\<rparr>,
                               \<lparr>a_type = ''hidden'', a_neurons = 2, a_activation = Some ''tanh'', a_bias = Some True\<rparr>,
                               \<lparr>a_type = ''output'', a_neurons = 1, a_activation = Some ''sigmoid'', a_bias = Some True\<rparr>],
                      net := ds\<rparr>))"
    using r unfolding a by (simp add: csv_data_ragged num_at_def numeral_3_eq_3)
  have e: "map a_neurons (arch example_state) = [2, 2, 2]"
    "length (hd (csv_data bit_Number ragged_text)) = 4"
    "map a_type (arch example_state) = [''input'', ''hidden'', ''output'']"
    by (simp_all add: csv_data_ragged example_state_def)
  show ?thesis
    apply (intro conjI h(1) e)
    apply (rule exI [of _ ds], rule exI [of _ n])
    using r' n by (intro conjI)
qed

text \<open>Claim C7 as stated fails on a file whose second row has two cells and whose first
  has four: no error is reported, the input size changes from 2 to 3 and the dataset is
  replaced, with an \<open>undefined\<close> target in the second row.\<close>

theorem handleCSVFile_ragged_counterexample:
  "map length (csv_data bit_Number ragged_text) = [4, 2] \<and>
   inputSize example_state = 2 \<and> dataset_X example_state = [] \<and>
   map_option (map_sum id inputSize) (handleCSVFile bit_Number ragged_text example_state) =
     Some (Inr 3) \<and>
   map_option (map_sum id dataset_X) (handleCSVFile bit_Number ragged_text example_state) =
     Some (Inr [[Some 1, Some 0, Some 1], [Some 0, Some 1]]) \<and>
   map_option (map_sum id dataset_y) (handleCSVFile bit_Number ragged_text example_state) =
     Some (Inr [[Some 1], [None]])"
proof -
  obtain st' where "handleCSVFile bit_Number ragged_text example_state = Some (Inr st')"
    "inputSize st' = 3" "dataset_X st' = [[Some 1, Some 0, Some 1], [Some 0, Some 1]]"
    "dataset_y st' = [[Some 1], [None]]"
    using handleCSVFile_effect [of bit_Number ragged_text example_state]
    by (auto simp: csv_data_ragged num_at_def numeral_3_eq_3)
  then show ?thesis by (simp add: csv_data_ragged example_state_def)
qed



section \<open>Importing weights and architectures\<close>

lemma uniform_alternating: "uniform_source alternating 0"
  by (simp add: uniform_source_def nth_value_alternating)

lemma nonzero_alternating: "nonzero_again alternating 0"
  unfolding nonzero_again_def nth_value_alternating
proof
  fix k :: nat
  show "\<exists>j\<ge>k. (if even j then 0 else 1 / 2) \<noteq> (0 :: real)"
    by (rule exI [of _ "Suc (2 * k)"]) simp
qed

lemma new_DenseLayer_returns:
  assumes "uniform_source rand s" and "nonzero_again rand s"
  shows "\<exists>w k. new_DenseLayer i n a u rand s =
     Some (\<lparr>l_in = i, l_out = n, l_activation = a, l_useBias = u,
            l_W = Some w, l_b = (if u then Some (zeros 1 n) else None),
            l_X = None, l_Z = None, l_A = None\<rparr>, after rand k s)"
proof -
  obtain M k where "randn i n rand s = Some (M, after rand k s)"
    using randn_returns [OF assms, of i n] by blast
  then show ?thesis by (intro exI [of _ M] exI [of _ k]) (simp add: new_DenseLayer_def)
qed

lemma import_layers_returns:
  assumes "uniform_source rand s" and "nonzero_again rand s" and "records_fit n ls"
  shows "\<exists>s'. import_layers rand n ls s = Some (Inr (stored_layers n ls, s'))"
  using assms
proof (induction ls arbitrary: n s)
  case Nil
  show ?case by simp
next
  case (Cons L Ls)
  let ?a = "case r_activation L of None \<Rightarrow> ''relu'' | Some a \<Rightarrow> a"
  let ?u = "case r_useBias L of None \<Rightarrow> True | Some u \<Rightarrow> u"
  have ok: "\<not> constructor_fails n (r_out L) ?u"
    using Cons.prems(3) by (simp add: constructor_fails_def zeros_fails_def)
  obtain w k where d: "new_DenseLayer n (r_out L) ?a ?u rand s =
     Some (\<lparr>l_in = n, l_out = r_out L, l_activation = ?a, l_useBias = ?u,
            l_W = Some w, l_b = (if ?u then Some (zeros 1 (r_out L)) else None),
            l_X = None, l_Z = None, l_A = None\<rparr>, after rand k s)"
    using new_DenseLayer_returns [OF Cons.prems(1,2)] by blast
  obtain s' where r: "import_layers rand (r_out L) Ls (after rand k s) =
      Some (Inr (stored_layers (r_out L) Ls, s'))"
    using Cons.IH [OF uniform_after [OF Cons.prems(1)] nonzero_after [OF Cons.prems(2)]]
      Cons.prems(3) by auto
  show ?case using ok d r by (simp add: Let_def)
qed

lemma stored_layers_W: "records_fit n ls \<Longrightarrow> \<not> list_ex (\<lambda>L. l_W L = None) (stored_layers n ls)"
  by (induction ls arbitrary: n) (auto split: option.splits)

lemma stored_layers_out: "map l_out (stored_layers n ls) = map r_out ls"
  by (induction ls arbitrary: n) simp_all

lemma stored_layers_edges:
  "records_fit n ls \<Longrightarrow> before + n + sum_list (map r_out ls) \<le> nodes \<Longrightarrow>
     \<not> edges_throw before n nodes (stored_layers n ls)"
proof (induction ls arbitrary: n before)
  case Nil
  show ?case by simp
next
  case (Cons L Ls)
  obtain w where w: "r_W L = Some w" "shape w n (r_out L)"
    using Cons.prems(1) by (auto split: option.splits)
  have h: "w \<noteq> [] \<Longrightarrow> length (hd w) = r_out L" using w(2) by (simp add: shape_def)
  have l: "length w = n" using w(2) by (simp add: shape_def)
  have "\<not> edges_throw (before + n) (r_out L) nodes (stored_layers (r_out L) Ls)"
    using Cons.IH [of "r_out L" "before + n"] Cons.prems by simp
  then show ?case using w(1) h l Cons.prems(2) by auto
qed

lemma stored_layers_render:
  assumes "records_fit n ls"
  shows "\<not> renderNNVis_throws nnVis
     (st\<lparr>inputSize := n, outputSize := m, arch := a, net := stored_layers n ls\<rparr>)"
  using stored_layers_W [OF assms] stored_layers_edges [OF assms, of 0 "n + sum_list (map r_out ls)"]
  by (simp add: renderNNVis_throws_def stored_layers_out)

lemma importJSON_layers:
  assumes "p_layers p = Array ls" and "ls \<noteq> []"
    and "records_fit (case r_in (hd ls) of None \<Rightarrow> inputSize st | Some n \<Rightarrow> n) ls"
    and "uniform_source rand s" and "nonzero_again rand s"
  shows "importJSON nnVis rand s (Parsed p) st =
     Some (st\<lparr>inputSize := (case r_in (hd ls) of None \<Rightarrow> inputSize st | Some n \<Rightarrow> n),
              outputSize := r_out (last ls),
              arch := import_arch (case r_in (hd ls) of None \<Rightarrow> inputSize st | Some n \<Rightarrow> n)
                        (r_out (last ls)) ls,
              net := stored_layers (case r_in (hd ls) of None \<Rightarrow> inputSize st | Some n \<Rightarrow> n) ls\<rparr>,
           ImportedWeights)"
proof -
  let ?n = "case r_in (hd ls) of None \<Rightarrow> inputSize st | Some n \<Rightarrow> n"
  obtain s' where r: "import_layers rand ?n ls s = Some (Inr (stored_layers ?n ls, s'))"
    using import_layers_returns [OF assms(4,5,3)] by blast
  show ?thesis
    using assms(1,2) r stored_layers_render [OF assms(3)]
    by (simp add: importJSON_def Let_def)
qed

lemma chain_broken_fit: "records_fit 2 chain_broken_layers"
  by (simp add: chain_broken_layers_def shape_def mat_def)

text \<open>
  Claim C5, as the code has it. A text that does not parse, an empty \<open>layers\<close> array, and
  a payload whose \<open>layers\<close> is not an array and that has neither \<open>architecture\<close> nor
  \<open>weights\<close> are each reported as invalid and leave the state as it was. The chain of
  the records is never checked. A non-empty array of layer records is imported with
  success, whatever the \<open>in\<close> of the records after the first say, when each layer can be
  made and drawn with the widths the import gives it: all of them array lengths (below
  \<open>2\<^sup>3\<^sup>2\<close>), every \<open>W\<close> of the shape of the previous record's \<open>out\<close> (for the first record
  its \<open>in\<close>, or the current input size when it has none) and its own \<open>out\<close>, and
  \<open>Math.random\<close> returning values in \<open>[0, 1)\<close>, nonzero ones again and again. Then the
  declared sizes, the architecture list and the network are replaced: each layer has the
  previous record's \<open>out\<close> as input width and its record's \<open>W\<close> and \<open>b\<close> as they are.
\<close>

theorem import_weights_format:
  "importJSON nnVis rand s Unparsable st = Some (st, Invalid ParseError) \<and>
   (p_layers p = Array [] \<longrightarrow>
      importJSON nnVis rand s (Parsed p) st = Some (st, Invalid LayersEmpty)) \<and>
   ((\<forall>ls. p_layers p \<noteq> Array ls) \<and> p_architecture p = Absent \<and> p_weights p = Absent \<longrightarrow>
      importJSON nnVis rand s (Parsed p) st = Some (st, Invalid Unrecognized)) \<and>
   (p_layers p = Array ls \<and> ls \<noteq> [] \<and> records_fit (case r_in (hd ls) of None \<Rightarrow> inputSize st | Some n \<Rightarrow> n) ls \<and>
    uniform_source rand s \<and> nonzero_again rand s \<longrightarrow>
      importJSON nnVis rand s (Parsed p) st =
        Some (st\<lparr>inputSize := (case r_in (hd ls) of None \<Rightarrow> inputSize st | Some n \<Rightarrow> n),
                 outputSize := r_out (last ls),
                 arch := import_arch (case r_in (hd ls) of None \<Rightarrow> inputSize st | Some n \<Rightarrow> n) (r_out (last ls)) ls,
                 net := stored_layers (case r_in (hd ls) of None \<Rightarrow> inputSize st | Some n \<Rightarrow> n) ls\<rparr>,
              ImportedWeights))"
proof (intro conjI impI)
  show "importJSON nnVis rand s Unparsable st = Some (st, Invalid ParseError)"
    by (simp add: importJSON_def)
  show "importJSON nnVis rand s (Parsed p) st = Some (st, Invalid LayersEmpty)"
    if "p_layers p = Array []"
    using that by (simp add: importJSON_def)
  show "importJSON nnVis rand s (Parsed p) st = Some (st, Invalid Unrecognized)"
    if "(\<forall>ls. p_layers p \<noteq> Array ls) \<and> p_architecture p = Absent \<and> p_weights p = Absent"
    using that by (cases "p_layers p") (simp_all add: importJSON_def)
  show "importJSON nnVis rand s (Parsed p) st =
        Some (st\<lparr>inputSize := (case r_in (hd ls) of None \<Rightarrow> inputSize st | Some n \<Rightarrow> n),
                 outputSize := r_out (last ls),
                 arch := import_arch (case r_in (hd ls) of None \<Rightarrow> inputSize st | Some n \<Rightarrow> n) (r_out (last ls)) ls,
                 net := stored_layers (case r_in (hd ls) of None \<Rightarrow> inputSize st | Some n \<Rightarrow> n) ls\<rparr>,
              ImportedWeights)"
    if "p_layers p = Array ls \<and> ls \<noteq> [] \<and> records_fit (case r_in (hd ls) of None \<Rightarrow> inputSize st | Some n \<Rightarrow> n) ls \<and>
        uniform_source rand s \<and> nonzero_again rand s"
    using that by (intro importJSON_layers) simp_all
qed

theorem import_weights_format_witness:
  "p_layers chain_broken = Array chain_broken_layers \<and> chain_broken_layers \<noteq> [] \<and>
   records_fit 2 chain_broken_layers \<and>
   uniform_source alternating 0 \<and> nonzero_again alternating 0 \<and>
   importJSON True alternating 0 (Parsed chain_broken) example_state =
     Some (example_state\<lparr>inputSize := 2, outputSize := 1,
             arch := import_arch 2 1 chain_broken_layers,
             net := stored_layers 2 chain_broken_layers\<rparr>, ImportedWeights)"
proof -
  have i: "(case r_in (hd chain_broken_layers) of None \<Rightarrow> inputSize example_state | Some n \<Rightarrow> n) = 2"
    and o: "r_out (last chain_broken_layers) = 1"
    by (simp_all add: chain_broken_layers_def)
  have h: "p_layers chain_broken = Array chain_broken_layers \<and> chain_broken_layers \<noteq> [] \<and>
      records_fit (case r_in (hd chain_broken_layers) of None \<Rightarrow> inputSize example_state | Some n \<Rightarrow> n)
        chain_broken_layers \<and>
      uniform_source alternating 0 \<and> nonzero_again alternating 0"
    unfolding i using chain_broken_fit uniform_alternating nonzero_alternating
    by (simp add: chain_broken_def chain_broken_layers_def)
  from import_weights_format [where p = chain_broken and ls = chain_broken_layers
        and st = example_state and rand = alternating and s = 0 and nnVis = True,
        THEN conjunct2, THEN conjunct2, THEN conjunct2, THEN mp, OF h]
  have "importJSON True alternating 0 (Parsed chain_broken) example_state =
     Some (example_state\<lparr>inputSize := 2, outputSize := 1,
             arch := import_arch 2 1 chain_broken_layers,
             net := stored_layers 2 chain_broken_layers\<rparr>, ImportedWeights)"
    unfolding i o .
  with h show ?thesis unfolding i by (intro conjI) simp_all
qed

text \<open>Claim C5 as stated fails on two records with \<open>out = 3\<close> followed by \<open>in = 5\<close>, read
  while the page shows the network and \<open>Math.random\<close> returns \<open>0\<close> and \<open>1/2\<close> in turn: the
  import reports success and replaces the empty network by two layers of input widths 2
  and 3 that hold the matrices of the records, and the architecture list by one of three
  entries.\<close>

theorem import_broken_chain_counterexample:
  "p_layers chain_broken = Array chain_broken_layers \<and>
   map r_in chain_broken_layers = [Some 2, Some 5] \<and>
   map r_out chain_broken_layers = [3, 1] \<and>
   map_option snd (importJSON True alternating 0 (Parsed chain_broken) example_state) =
     Some ImportedWeights \<and>
   map_option (map l_in \<circ> net \<circ> fst)
     (importJSON True alternating 0 (Parsed chain_broken) example_state) = Some [2, 3] \<and>
   map_option (map l_W \<circ> net \<circ> fst)
     (importJSON True alternating 0 (Parsed chain_broken) example_state) =
     Some [Some (mat [[1, 2, 3], [4, 5, 6]]), Some (mat [[1], [2], [3]])] \<and>
   map_option (map a_neurons \<circ> arch \<circ> fst)
     (importJSON True alternating 0 (Parsed chain_broken) example_state) = Some [2, 3, 1] \<and>
   net example_state = [] \<and> map a_neurons (arch example_state) = [2, 2, 2]"
proof -
  have i: "(case r_in (hd chain_broken_layers) of None \<Rightarrow> inputSize example_state | Some n \<Rightarrow> n) = 2"
    by (simp add: chain_broken_layers_def)
  have "importJSON True alternating 0 (Parsed chain_broken) example_state =
     Some (example_state\<lparr>inputSize := 2, outputSize := r_out (last chain_broken_layers),
             arch := import_arch 2 (r_out (last chain_broken_layers)) chain_broken_layers,
             net := stored_layers 2 chain_broken_layers\<rparr>, ImportedWeights)"
    using importJSON_layers [of chain_broken chain_broken_layers example_state alternating 0 True]
      chain_broken_fit uniform_alternating nonzero_alternating
    unfolding i by (simp add: chain_broken_def chain_broken_layers_def)
  then show ?thesis
    by (simp add: chain_broken_def chain_broken_layers_def import_arch_def example_state_def)
qed

lemma rng_entry_bound:
  assumes "from_draws rng_rand s z"
  shows "\<exists>x. z = Some x \<and> \<bar>x\<bar> \<le> 200"
proof -
  obtain i j where u: "0 < nth_value rng_rand s i" "nth_value rng_rand s i < 1"
    and z: "z = Some (box_muller (nth_value rng_rand s i) (nth_value rng_rand s j) * 0.1)"
    using assms unfolding from_draws_def by blast
  let ?u = "nth_value rng_rand s i" and ?v = "nth_value rng_rand s j"
  obtain n :: nat where n: "?u = real (n mod 1000000) / 1000000"
    by (simp add: nth_value_def rng_rand_def Let_def)
  have "0 < n mod 1000000" using u(1) unfolding n by (cases "n mod 1000000 = 0") simp_all
  then have "1 \<le> real (n mod 1000000)" by simp
  then have lo: "1 / 1000000 \<le> ?u" unfolding n by (simp add: divide_right_mono)
  have "ln (1 / 1000000 :: real) \<le> ln ?u"
    using lo by (subst ln_le_cancel_iff) (use u(1) in simp_all)
  moreover have "ln (1 / 1000000 :: real) = - ln 1000000"
    by (simp add: ln_div)
  moreover have "ln (1000000 :: real) \<le> 1000000 - 1"
    by (rule ln_le_minus_one) simp
  ultimately have "- 2 * ln ?u \<le> 2000\<^sup>2" by simp
  then have s: "sqrt (- 2 * ln ?u) \<le> 2000"
    by (intro real_le_lsqrt) simp_all
  have "ln ?u < 0" using u by simp
  then have "0 \<le> sqrt (- 2 * ln ?u)" by simp
  then have "\<bar>box_muller ?u ?v\<bar> = sqrt (- 2 * ln ?u) * \<bar>cos (2 * pi * ?v)\<bar>"
    unfolding box_muller_def abs_mult by (simp only: abs_of_nonneg)
  also have "\<dots> \<le> 2000 * 1"
    by (intro mult_mono s abs_cos_le_one) simp_all
  finally have "\<bar>box_muller ?u ?v * 0.1\<bar> \<le> 200" by (simp add: abs_mult)
  with z show ?thesis by blast
qed

lemma fresh_1_1:
  "\<exists>x s'. randn 1 1 rng_rand (rng 42) = Some ([[Some x]], s') \<and> \<bar>x\<bar> \<le> 200"
proof -
  obtain M k where M: "randn 1 1 rng_rand (rng 42) = Some (M, after rng_rand k (rng 42))"
      "shape M 1 1" "\<forall>row\<in>set M. \<forall>z\<in>set row. from_draws rng_rand (rng 42) z"
    using randn_returns [OF uniform_rng nonzero_rng, of 1 1] by blast
  from M(2) obtain z where Mz: "M = [[z]]"
    by (cases M; cases "hd M"; cases "tl (hd M)") (auto simp: shape_def)
  with M(3) have "from_draws rng_rand (rng 42) z" by simp
  from rng_entry_bound [OF this] obtain x where "z = Some x" "\<bar>x\<bar> \<le> 200" by blast
  with M(1) Mz show ?thesis by blast
qed

lemma no_bias_build:
  assumes "randn 1 1 rng_rand (rng 42) = Some (w, s')"
  shows "build_layers_checked 1 no_bias_arch =
      Some (Inr ([\<lparr>l_in = 1, l_out = 1, l_activation = ''linear'', l_useBias = False,
                 l_W = Some w, l_b = None, l_X = None, l_Z = None, l_A = None\<rparr>], 1))"
  using assms
  by (simp add: no_bias_arch_def new_DenseLayer_def constructor_fails_def zeros_fails_def)

lemma no_bias_import:
  assumes "randn 1 1 rng_rand (rng 42) = Some ([[Some x]], s')"
  shows "importJSON True rand s (Parsed no_bias_payload) example_state =
     Some (example_state\<lparr>arch := no_bias_arch, inputSize := 1, outputSize := 1,
             net := [\<lparr>l_in = 1, l_out = 1, l_activation = ''linear'', l_useBias = False,
                      l_W = Some [[Some x]], l_b = None, l_X = None, l_Z = None, l_A = None\<rparr>]\<rparr>,
           ImportedArchitecture True)"
proof -
  have a: "arch (set_architecture no_bias_arch example_state) = no_bias_arch"
    and i: "inputSize (set_architecture no_bias_arch example_state) = 1"
    by (simp_all add: set_architecture_def no_bias_arch_def Let_def)
  have e: "set_architecture no_bias_arch example_state =
      example_state\<lparr>arch := no_bias_arch, inputSize := 1, outputSize := 1\<rparr>"
    by (simp add: set_architecture_def no_bias_arch_def Let_def)
  show ?thesis
    unfolding importJSON_def using no_bias_build [OF assms]
    by (simp add: no_bias_payload_def a i Let_def e renderNNVis_throws_def no_bias_weights_def)
qed

text \<open>
  Claim C6 at a layer without bias. The architecture has one layer with \<open>bias\<close> false, and
  \<open>weights\<close> holds the one record that the application writes for such a layer: a matrix
  \<open>W\<close> and \<open>b = null\<close>. The array has the length of the rebuilt network and the import
  reports success with weights, yet the layer keeps the weights of its construction
  (entries of at most 200 in absolute value) and not the matrix of the record.
\<close>

theorem import_no_bias_drops_weights:
  "length no_bias_weights = 1 \<and>
   map r_W no_bias_weights = [Some (mat [[1000]])] \<and>
   map r_b no_bias_weights = [None] \<and>
   map_option snd (importJSON True alternating 0 (Parsed no_bias_payload) example_state) =
     Some (ImportedArchitecture True) \<and>
   map_option (length \<circ> net \<circ> fst)
     (importJSON True alternating 0 (Parsed no_bias_payload) example_state) = Some 1 \<and>
   map_option (map l_W \<circ> net \<circ> fst)
     (importJSON True alternating 0 (Parsed no_bias_payload) example_state)
     \<noteq> Some [Some (mat [[1000]])]"
proof -
  obtain x s' where w: "randn 1 1 rng_rand (rng 42) = Some ([[Some x]], s')" and x: "\<bar>x\<bar> \<le> 200"
    using fresh_1_1 by blast
  have "x \<noteq> 1000" using x by auto
  then show ?thesis
    unfolding no_bias_import [OF w] by (simp add: no_bias_weights_def mat_def)
qed

theorem import_no_bias_drops_weights_witness:
  "p_layers no_bias_payload = Absent \<and>
   p_architecture no_bias_payload = Array no_bias_arch \<and>
   p_weights no_bias_payload = Array no_bias_weights \<and>
   map_option snd (importJSON True alternating 0 (Parsed no_bias_payload) example_state) =
     Some (ImportedArchitecture True)"
  using import_no_bias_drops_weights by (simp add: no_bias_payload_def)

section \<open>Cancellation of a training run\<close>

lemma epoch_body_flag:
  "epoch_body lr batch X y ep ts = Some (Inr ts1) \<Longrightarrow>
     t_stopFlag ts1 = t_stopFlag ts \<and> t_labels ts1 = t_labels ts @ [ep]"
  by (auto simp: epoch_body_def split: option.splits sum.splits prod.splits)

lemma set_stop_simps:
  "set_stop f None = None"
  "set_stop f (Some (Inl e)) = Some (Inl e)"
  "set_stop f (Some (Inr ts)) = Some (Inr (ts\<lparr>t_stopFlag := f\<rparr>))"
  by (simp_all add: set_stop_def)

lemma run_epochs_fail:
  "0 < n \<Longrightarrow> epoch_body lr batch X y ep ts = None \<Longrightarrow> run_epochs lr batch X y n ep ts = None"
  "0 < n \<Longrightarrow> epoch_body lr batch X y ep ts = Some (Inl e) \<Longrightarrow>
     run_epochs lr batch X y n ep ts = Some (Inl e)"
  by (cases n; simp)+

lemma find_in_set: "find P xs = Some x \<Longrightarrow> x \<in> set xs"
  by (induction xs) (auto split: if_splits)

lemma find_upt_pos:
  assumes "ep \<le> epochs"
  shows "0 < (case find clicks [ep..<Suc epochs] of None \<Rightarrow> Suc epochs - ep | Some e \<Rightarrow> Suc e - ep)"
proof (cases "find clicks [ep..<Suc epochs]")
  case None
  then show ?thesis using assms by (simp del: upt_Suc train_epochs.simps)
next
  case (Some e)
  from find_in_set [OF this] have "ep \<le> e" by (simp del: upt_Suc train_epochs.simps)
  then show ?thesis using Some by (simp del: upt_Suc train_epochs.simps)
qed

lemma train_epochs_eq:
  assumes "t_stopFlag ts = False"
  shows "train_epochs lr epochs batch clicks X y ep ts =
     set_stop (list_ex clicks [ep..<Suc epochs])
       (run_epochs lr batch X y
          (case find clicks [ep..<Suc epochs] of None \<Rightarrow> Suc epochs - ep | Some e \<Rightarrow> Suc e - ep)
          ep ts)"
  using assms
proof (induction "Suc epochs - ep" arbitrary: ep ts)
  case 0
  then have "\<not> ep \<le> epochs" by simp
  then show ?case using 0 by (simp add: set_stop_simps)
next
  case (Suc n)
  then have le: "ep \<le> epochs" by simp
  have upt: "[ep..<Suc epochs] = ep # [Suc ep..<Suc epochs]"
    using le by (simp add: upt_conv_Cons)
  show ?case
  proof (cases "epoch_body lr batch X y ep ts")
    case None
    then show ?thesis using le
      by (subst train_epochs.simps) (simp add: run_epochs_fail find_upt_pos set_stop_simps del: upt_Suc train_epochs.simps)
  next
    case (Some r)
    show ?thesis
    proof (cases r)
      case (Inl e)
      with Some show ?thesis using le
        by (subst train_epochs.simps) (simp add: run_epochs_fail find_upt_pos set_stop_simps del: upt_Suc train_epochs.simps)
    next
      case (Inr ts1)
      with Some have b: "epoch_body lr batch X y ep ts = Some (Inr ts1)" by simp
      have f1: "t_stopFlag ts1 = False" using epoch_body_flag [OF b] Suc.prems by simp
      show ?thesis
      proof (cases "clicks ep")
        case True
        then show ?thesis using le b f1
          unfolding upt by (subst train_epochs.simps) (simp add: set_stop_simps del: upt_Suc train_epochs.simps)
      next
        case False
        have ts2: "ts1\<lparr>t_stopFlag := False\<rparr> = ts1" using f1 by simp
        have n: "n = Suc epochs - Suc ep" using Suc.hyps(2) by simp
        have IH: "train_epochs lr epochs batch clicks X y (Suc ep) ts1 =
           set_stop (list_ex clicks [Suc ep..<Suc epochs])
             (run_epochs lr batch X y
               (case find clicks [Suc ep..<Suc epochs] of None \<Rightarrow> Suc epochs - Suc ep
                | Some e \<Rightarrow> Suc e - Suc ep) (Suc ep) ts1)"
          by (rule Suc.hyps(1) [OF n f1])
        have cnt: "(case find clicks [Suc ep..<Suc epochs] of None \<Rightarrow> Suc epochs - ep | Some e \<Rightarrow> Suc e - ep)
            = Suc (case find clicks [Suc ep..<Suc epochs] of None \<Rightarrow> Suc epochs - Suc ep
                | Some e \<Rightarrow> Suc e - Suc ep)"
        proof (cases "find clicks [Suc ep..<Suc epochs]")
          case None
          then show ?thesis using le by (simp del: upt_Suc train_epochs.simps)
        next
          case (Some e)
          from find_in_set [OF this] have "Suc ep \<le> e" by (simp del: upt_Suc train_epochs.simps)
          then have "Suc e - ep = Suc (Suc e - Suc ep)" by arith
          then show ?thesis using Some by (simp del: upt_Suc train_epochs.simps)
        qed
        show ?thesis
          using le b f1 False
          unfolding upt by (subst train_epochs.simps) (simp add: ts2 IH cnt set_stop_simps del: upt_Suc train_epochs.simps)
      qed
    qed
  qed
qed

lemma run_epochs_labels:
  "run_epochs lr batch X y n ep ts = Some (Inr ts') \<Longrightarrow> t_labels ts' = t_labels ts @ [ep..<ep + n]"
proof (induction n arbitrary: ep ts)
  case 0
  then show ?case by simp
next
  case (Suc n)
  from Suc.prems obtain ts1 where b: "epoch_body lr batch X y ep ts = Some (Inr ts1)"
    and r: "run_epochs lr batch X y n (Suc ep) ts1 = Some (Inr ts')"
    by (auto split: option.splits sum.splits)
  from Suc.IH [OF r] epoch_body_flag [OF b]
  show ?case by (simp add: upt_conv_Cons)
qed

lemma tiny_run:
  "run_epochs (1 / 4) 1 (dataset_X tiny_state) (dataset_y tiny_state) 2 1
     \<lparr>t_net = net tiny_state, t_rng = rng 42, t_labels = [], t_losses = [], t_stopFlag = False\<rparr> =
   Some (Inr \<lparr>t_net =
                [\<lparr>l_in = 1, l_out = 1, l_activation = ''linear'', l_useBias = False,
                   l_W = Some [[Some (5 / 2)]], l_b = None, l_X = Some [[Some 1]],
                   l_Z = Some [[Some (5 / 2)]], l_A = Some [[Some (5 / 2)]]\<rparr>],
              t_rng = rng 42, t_labels = [1, 2], t_losses = [Some 1, Some (1 / 4)],
              t_stopFlag = False\<rparr>)"
  by (simp add: numeral_2_eq_2 tiny_state_def epoch_body_def getBatches_def shuffleInPlace_def
      train_batch_def net_backward_def forward_def backward_def dot_def addBias_def
      applyActivation_def hadamard_def transpose_m_def mse_def accuracyBinary_def fill_def
      zeros_def num_at_def jadd_def jsub_def jmul_def jdiv_def Activations_def linear_act_def
      update_row_def mat_def Let_def power2_eq_square)

text \<open>
  Claim C4. Cancellation is observed only at the end of an epoch. A training run on a
  non-empty dataset is the run of whole epochs, each with all its batches (forward, loss
  gradient, backward) and its evaluation on the full dataset, from the first epoch to the
  first one during whose \<open>await\<close> Stop is clicked, or to the last one when Stop is never
  clicked; nothing of a later epoch runs, and the run differs from the one with no
  cancellation check at all only in the stop flag. When the run returns, the chart has one
  label for each of these epochs.
\<close>

theorem trainLoop_cancellation:
  assumes "dataset_X st \<noteq> []"
  shows "trainLoop lr epochs batch clicks st =
     set_stop (stopped clicks epochs)
       (run_epochs lr batch (dataset_X st) (dataset_y st) (last_epoch clicks epochs) 1
          \<lparr>t_net = net st, t_rng = rng 42, t_labels = [], t_losses = [], t_stopFlag = False\<rparr>) \<and>
     (\<forall>ts'. trainLoop lr epochs batch clicks st = Some (Inr ts') \<longrightarrow>
        t_labels ts' = [1..<Suc (last_epoch clicks epochs)] \<and>
        t_stopFlag ts' = stopped clicks epochs)"
proof -
  let ?ts0 = "\<lparr>t_net = net st, t_rng = rng 42, t_labels = [], t_losses = [], t_stopFlag = False\<rparr>"
  have c: "(case find clicks [1..<Suc epochs] of None \<Rightarrow> Suc epochs - 1 | Some e \<Rightarrow> Suc e - 1)
      = last_epoch clicks epochs"
    by (simp add: last_epoch_def split: option.splits)
  have eq: "trainLoop lr epochs batch clicks st =
     set_stop (stopped clicks epochs)
       (run_epochs lr batch (dataset_X st) (dataset_y st) (last_epoch clicks epochs) 1 ?ts0)"
    using assms train_epochs_eq [of ?ts0 lr epochs batch clicks "dataset_X st" "dataset_y st" 1]
    unfolding c by (simp add: trainLoop_def stopped_def)
  have "t_labels ts' = [1..<Suc (last_epoch clicks epochs)] \<and> t_stopFlag ts' = stopped clicks epochs"
    if "trainLoop lr epochs batch clicks st = Some (Inr ts')" for ts'
  proof -
    from that eq have "\<exists>ts''. run_epochs lr batch (dataset_X st) (dataset_y st)
        (last_epoch clicks epochs) 1 ?ts0 = Some (Inr ts'') \<and>
        ts' = ts''\<lparr>t_stopFlag := stopped clicks epochs\<rparr>"
      by (cases "run_epochs lr batch (dataset_X st) (dataset_y st) (last_epoch clicks epochs) 1 ?ts0";
          cases "the (run_epochs lr batch (dataset_X st) (dataset_y st) (last_epoch clicks epochs) 1 ?ts0)")
        (auto simp: set_stop_simps)
    then obtain ts'' where r: "run_epochs lr batch (dataset_X st) (dataset_y st)
        (last_epoch clicks epochs) 1 ?ts0 = Some (Inr ts'')"
      and t: "ts' = ts''\<lparr>t_stopFlag := stopped clicks epochs\<rparr>"
      by blast
    from run_epochs_labels [OF r] t show ?thesis by simp
  qed
  with eq show ?thesis by blast
qed

theorem trainLoop_cancellation_witness:
  "dataset_X tiny_state \<noteq> [] \<and> last_epoch (\<lambda>ep. ep = 2) 3 = 2 \<and>
   map_option (map_sum id t_labels) (trainLoop (1 / 4) 3 1 (\<lambda>ep. ep = 2) tiny_state)
     = Some (Inr [1, 2]) \<and>
   map_option (map_sum id t_losses) (trainLoop (1 / 4) 3 1 (\<lambda>ep. ep = 2) tiny_state)
     = Some (Inr [Some 1, Some (1 / 4)]) \<and>
   map_option (map_sum id t_stopFlag) (trainLoop (1 / 4) 3 1 (\<lambda>ep. ep = 2) tiny_state)
     = Some (Inr True)"
proof -
  have d: "dataset_X tiny_state \<noteq> []" by (simp add: tiny_state_def mat_def)
  have l: "last_epoch (\<lambda>ep. ep = 2) 3 = 2" and s: "stopped (\<lambda>ep. ep = 2) 3"
    by (simp_all add: last_epoch_def stopped_def upt_rec)
  show ?thesis
    using trainLoop_cancellation [OF d, of "1 / 4" 3 1 "\<lambda>ep. ep = 2", THEN conjunct1] d l
    unfolding l tiny_run by (simp add: s set_stop_def)
qed

end
